theory Spec2Isabelle
  imports Main "HOL-Library.Sublist" "HOL-Library.Word"
begin

section \<open>Text: Python strings, case folding and suffix tests\<close>

text \<open>
  Python \<open>str\<close> and \<open>bytes\<close> values are modelled as lists of 8-bit characters. On
  this range \<open>str.lower\<close> and the case-insensitive matching of the regular
  expression module change the ASCII letters \<open>A\<close> .. \<open>Z\<close> only, as far as a comparison
  with the ASCII literals of the source is concerned.
\<close>

definition LF :: char where
  "LF = CHR 0x0A"

definition CR :: char where
  "CR = CHR 0x0D"

definition lower_char :: "char \<Rightarrow> char" where
  "lower_char c =
     (if (65::nat) \<le> of_char c \<and> (of_char c :: nat) \<le> 90
      then char_of ((of_char c :: nat) + 32) else c)"

definition lower :: "string \<Rightarrow> string" where
  "lower s = map lower_char s"

definition endswith :: "string \<Rightarrow> string \<Rightarrow> bool" where
  "endswith s suf = (length suf \<le> length s \<and> drop (length s - length suf) s = suf)"

definition endswith_any :: "string \<Rightarrow> string list \<Rightarrow> bool" where
  "endswith_any s sufs = list_ex (endswith s) sufs"

section \<open>File classifier: \<open>EXE_REGEX\<close> and \<open>get_interesting_files\<close>\<close>














section \<open>Effects: exceptions, the action trace, the state\<close>

text \<open>
  An exception is a value; a function that may raise returns \<open>exn + 'a\<close> with \<open>Inl\<close>
  for the exception. Each constructor is the Python class that is raised and carries
  its message. \<open>OSError\<close> stands for the operating-system errors of the library
  calls (a missing file, a refused access).
\<close>

datatype exn =
    BadZipfile string
  | RuntimeError string
  | CuckooPackageError string
  | UnboundLocalError string
  | TypeError string
  | Exception string
  | OSError string

fun message :: "exn \<Rightarrow> string" where
  "message (BadZipfile m) = m"
| "message (RuntimeError m) = m"
| "message (CuckooPackageError m) = m"
| "message (UnboundLocalError m) = m"
| "message (TypeError m) = m"
| "message (Exception m) = m"
| "message (OSError m) = m"

text \<open>
  The calls that leave the module are recorded, in order, in a trace: the external tool
  (\<open>Run\<close>, with its argument vector), the deletion of a directory tree, every entry
  into \<open>extract_zip\<close> with its recursion depth, every \<open>extractall\<close> with the
  destination and the password, the renaming of an archive, the warning and the error
  logged for a nested archive, the launch of a process and the copy of a loader binary.
  Debug logging is not recorded.
\<close>

datatype action =
    Run "string list"
  | Rmtree string
  | Call_extract_zip string int
  | ExtractAll string string
  | Move string string
  | Log_warning string
  | Log_error string string
  | Execute string "string option" string
  | Copy string string

record 'w state =
  world :: 'w
  trace :: "action list"

definition emit :: "action \<Rightarrow> 'w state \<Rightarrow> 'w state" where
  "emit a s = s\<lparr>trace := trace s @ [a]\<rparr>"

text \<open>Python's \<open>sub in s\<close> on strings and bytes: \<open>sub\<close> occurs at some offset of \<open>s\<close>.\<close>

definition contains :: "string \<Rightarrow> string \<Rightarrow> bool" where
  "contains s sub = list_ex (\<lambda>i. take (length sub) (drop i s) = sub) [0..<Suc (length s)]"

definition BSL :: char where
  "BSL = CHR 0x5C"

definition DQ :: char where
  "DQ = CHR 0x22"

section \<open>External-tool backend: \<open>extract_archive\<close>\<close>

text \<open>
  The process library and the file-system calls are parameters: \<open>subprocess_run\<close>
  gives the completed process (or raises, when the tool cannot be started) and the new
  world; \<open>rmtree\<close> is called with \<open>ignore_errors=True\<close> and never raises;
  \<open>path_match p pat\<close> is \<open>Path(p).match(pat)\<close>; \<open>bytes_decode\<close> is \<open>bytes.decode\<close>,
  which gives the text of an output or raises.
\<close>

record completed =
  stdout :: string
  stderr :: string

record 'w tool_lib =
  subprocess_run :: "string list \<Rightarrow> 'w \<Rightarrow> (exn + completed) \<times> 'w"
  rmtree :: "string \<Rightarrow> 'w \<Rightarrow> 'w"
  path_match :: "string \<Rightarrow> string \<Rightarrow> bool"
  bytes_decode :: "string \<Rightarrow> exn + string"

definition run :: "'w tool_lib \<Rightarrow> string list \<Rightarrow> 'w state \<Rightarrow> (exn + completed) \<times> 'w state" where
  "run L argv s =
     (case subprocess_run L argv (world s) of
        (r, w) \<Rightarrow> (r, \<lparr>world = w, trace = trace s @ [Run argv]\<rparr>))"

definition do_rmtree :: "'w tool_lib \<Rightarrow> string \<Rightarrow> 'w state \<Rightarrow> 'w state" where
  "do_rmtree L p s = \<lparr>world = rmtree L p (world s), trace = trace s @ [Rmtree p]\<rparr>"

definition WRONG_PASSWORD :: string where
  "WRONG_PASSWORD = ''Wrong password''"

definition NOT_AN_ARCHIVE :: string where
  "NOT_AN_ARCHIVE = ''Can not open the file as archive''"

definition LOCAL_TEMP :: string where
  "LOCAL_TEMP = ''local'' @ [BSL] @ ''temp''"

text \<open>The two argument vectors: the first attempt and the retry.\<close>

definition first_argv :: "string \<Rightarrow> string \<Rightarrow> string \<Rightarrow> string list" where
  "first_argv seven_zip_path archive_path extract_path =
     [seven_zip_path, ''x'', ''-p'', ''-y'', ''-o'' @ extract_path, archive_path]"

definition retry_argv :: "string \<Rightarrow> string \<Rightarrow> string \<Rightarrow> string \<Rightarrow> string list" where
  "retry_argv seven_zip_path archive_path extract_path password =
     [seven_zip_path, ''x'', ''-p'' @ password, ''-y'', ''-o'' @ extract_path, archive_path]"

definition extract_archive ::
  "'w tool_lib \<Rightarrow> string \<Rightarrow> string \<Rightarrow> string \<Rightarrow> string \<Rightarrow> 'w state \<Rightarrow> (exn + unit) \<times> 'w state" where
  "extract_archive L seven_zip_path archive_path extract_path password s =
     (case run L (first_argv seven_zip_path archive_path extract_path) s of
        (Inl e, s1) \<Rightarrow> (Inl e, s1)
      | (Inr p, s1) \<Rightarrow>
          if contains (stderr p) WRONG_PASSWORD then
            (let s2 = (if \<not> path_match L extract_path LOCAL_TEMP
                       then do_rmtree L extract_path s1 else s1)
             in case run L (retry_argv seven_zip_path archive_path extract_path password) s2 of
                  (Inl e, s3) \<Rightarrow> (Inl e, s3)
                | (Inr p2, s3) \<Rightarrow>
                    if contains (stderr p2) WRONG_PASSWORD
                    then (Inl (Exception ''Wrong password provided''), s3)
                    else (Inr (), s3))
          else if contains (stdout p) NOT_AN_ARCHIVE
          then (Inl (TypeError ''Unable to open the file as archive''), s1)
          else (Inr (), s1))"

text \<open>
  A tool whose answers are scripted: the world is the list of the answers still to
  come, and each run consumes one; an output is ASCII and decodes to itself. It serves
  to run the functions of this backend on given tool outputs.
\<close>

definition scripted_tool :: "bool \<Rightarrow> (completed list) tool_lib" where
  "scripted_tool is_local_temp =
     \<lparr>subprocess_run = (\<lambda>argv w. case w of
          [] \<Rightarrow> (Inl (OSError ''tool not found''), [])
        | p # ps \<Rightarrow> (Inr p, ps)),
      rmtree = (\<lambda>p w. w),
      path_match = (\<lambda>p pat. is_local_temp),
      bytes_decode = (\<lambda>b. Inr b)\<rparr>"


section \<open>Execution dispatcher: \<open>ArchivePackage.execute_interesting_file\<close>\<close>

text \<open>
  The methods of the \<open>Package\<close> base class, the helpers imported from other modules
  and the library calls are parameters. A lookup of a launcher may raise; \<open>execute\<close>
  returns a result of a type left open. \<open>open_rb\<close> opens a file for reading in binary
  mode and gives its bytes.
\<close>

record os_path =
  path_join :: "string \<Rightarrow> string \<Rightarrow> string"
  path_dirname :: "string \<Rightarrow> string"
  path_basename :: "string \<Rightarrow> string"

record ('w, 'r) package =
  options :: "string \<Rightarrow> string option"
  get_path :: "string \<Rightarrow> 'w \<Rightarrow> exn + string"
  get_path_app_in_path :: "string \<Rightarrow> 'w \<Rightarrow> exn + string"
  get_path_glob :: "string \<Rightarrow> 'w \<Rightarrow> exn + string"
  execute :: "string \<Rightarrow> string option \<Rightarrow> string \<Rightarrow> 'w \<Rightarrow> (exn + 'r) \<times> 'w"
  choose_dll_export :: "string \<Rightarrow> 'w \<Rightarrow> exn + string option"
  is_pe_image :: "string \<Rightarrow> 'w \<Rightarrow> exn + bool"
  check_file_extension :: "string \<Rightarrow> string \<Rightarrow> 'w \<Rightarrow> (exn + string) \<times> 'w"
  open_rb :: "string \<Rightarrow> 'w \<Rightarrow> exn + string"
  shutil_copy :: "string \<Rightarrow> string \<Rightarrow> 'w \<Rightarrow> exn option \<times> 'w"
  pkg_paths :: os_path

definition PE_INDICATORS :: "string list" where
  "PE_INDICATORS = [''MZ'', ''This program cannot be run in DOS mode'']"

text \<open>
  \<open>f.read()\<close> on an open file returns the bytes from the current position to the end
  and leaves the position at the end. The handle is modelled by the bytes not yet read.
\<close>

definition f_read :: "string \<Rightarrow> string \<times> string" where
  "f_read f = (f, [])"

text \<open>
  \<open>any(PE_indicator in f.read() for PE_indicator in PE_INDICATORS)\<close>: the generator
  calls \<open>f.read()\<close> once for each indicator it reaches, and \<open>any\<close> stops at the
  first true element.
\<close>

fun any_indicator_in_read :: "string list \<Rightarrow> string \<Rightarrow> bool" where
  "any_indicator_in_read [] f = False"
| "any_indicator_in_read (PE_indicator # rest) f =
     (case f_read f of (data, f') \<Rightarrow>
        if contains data PE_indicator then True else any_indicator_in_read rest f')"

text \<open>Truth value of an optional string: \<open>None\<close> and the empty string are false.\<close>

fun truthy :: "string option \<Rightarrow> bool" where
  "truthy None = False"
| "truthy (Some v) = (v \<noteq> [])"

definition launch ::
  "('w, 'r) package \<Rightarrow> string \<Rightarrow> string option \<Rightarrow> string \<Rightarrow> 'w state
     \<Rightarrow> (exn + 'r option) \<times> 'w state" where
  "launch P path args target s =
     (case execute P path args target (world s) of
        (Inl e, w) \<Rightarrow> (Inl e, \<lparr>world = w, trace = trace s @ [Execute path args target]\<rparr>)
      | (Inr r, w) \<Rightarrow> (Inr (Some r), \<lparr>world = w, trace = trace s @ [Execute path args target]\<rparr>))"

definition shell_start_args :: "string \<Rightarrow> string \<Rightarrow> string" where
  "shell_start_args root file_path =
     ''/c '' @ [DQ] @ ''cd ^'' @ [DQ] @ root @ ''^'' @ [DQ] @ '' && start /wait ^'' @ [DQ]
       @ ''^'' @ [DQ] @ '' ^'' @ [DQ] @ file_path @ ''^'' @ [DQ]"

definition wscript_args :: "string \<Rightarrow> string \<Rightarrow> string \<Rightarrow> string" where
  "wscript_args root wscript file_path =
     ''/c '' @ [DQ] @ ''cd ^'' @ [DQ] @ root @ ''^'' @ [DQ] @ '' && '' @ wscript
       @ '' ^'' @ [DQ] @ file_path @ ''^'' @ [DQ]"

text \<open>
  Lines 67 to 82: the choice of the loader and the launch. The local variable
  \<open>function\<close> is assigned on the \<open>else\<close> branch only; it is an optional value here,
  and reading it while unassigned raises \<open>UnboundLocalError\<close>, as it does in Python.
\<close>

definition run_dll ::
  "('w, 'r) package \<Rightarrow> string \<Rightarrow> 'w state \<Rightarrow> (exn + 'r option) \<times> 'w state" where
  "run_dll P file_path s =
     (case choose_dll_export P file_path (world s) of
        Inl e \<Rightarrow> (Inl e, s)
      | Inr dll_export \<Rightarrow>
          (case (if dll_export = Some ''DllRegisterServer''
                 then (case get_path P ''regsvr32.exe'' (world s) of
                         Inl e \<Rightarrow> Inl e
                       | Inr rundll32 \<Rightarrow> Inr (rundll32, None))
                 else (case get_path_app_in_path P ''rundll32.exe'' (world s) of
                         Inl e \<Rightarrow> Inl e
                       | Inr rundll32 \<Rightarrow>
                           Inr (rundll32,
                                Some (case options P ''function'' of
                                        None \<Rightarrow> ''#1'' | Some v \<Rightarrow> v)))) of
             Inl e \<Rightarrow> (Inl e, s)
           | Inr (rundll32, function) \<Rightarrow>
               (let arguments = options P ''arguments'';
                    dllloader = options P ''dllloader''
                in case function of
                     None \<Rightarrow> (Inl (UnboundLocalError ''function''), s)
                   | Some function \<Rightarrow>
                       (let dll_args = [DQ] @ file_path @ [DQ] @ '','' @ function;
                            dll_args = (case arguments of
                                          None \<Rightarrow> dll_args
                                        | Some a \<Rightarrow> if a \<noteq> [] then dll_args @ '' '' @ a
                                                    else dll_args)
                        in case dllloader of
                             None \<Rightarrow> launch P rundll32 (Some dll_args) file_path s
                           | Some d \<Rightarrow>
                               if d \<noteq> [] then
                                 (let newname = path_join (pkg_paths P)
                                                  (path_dirname (pkg_paths P) rundll32) d
                                  in case shutil_copy P rundll32 newname (world s) of
                                       (Some e, w) \<Rightarrow>
                                         (Inl e, \<lparr>world = w,
                                                  trace = trace s @ [Copy rundll32 newname]\<rparr>)
                                     | (None, w) \<Rightarrow>
                                         launch P newname (Some dll_args) file_path
                                           \<lparr>world = w,
                                            trace = trace s @ [Copy rundll32 newname]\<rparr>)
                               else launch P rundll32 (Some dll_args) file_path s))))"

text \<open>
  The chain of \<open>if\<close>/\<open>elif\<close> of the method, in the order of the source. A bare
  \<open>return\<close> gives \<open>None\<close>; a returned launch result \<open>r\<close> is \<open>Some r\<close>.
\<close>

definition execute_interesting_file ::
  "('w, 'r) package \<Rightarrow> string \<Rightarrow> string \<Rightarrow> string \<Rightarrow> 'w state
     \<Rightarrow> (exn + 'r option) \<times> 'w state" where
  "execute_interesting_file P root file_name file_path s =
     (if endswith_any (lower file_name) [''.lnk'', ''.bat'', ''.cmd''] then
        (case get_path P ''cmd.exe'' (world s) of
           Inl e \<Rightarrow> (Inl e, s)
         | Inr cmd_path \<Rightarrow>
             launch P cmd_path (Some (shell_start_args root file_path)) file_path s)
      else if endswith (lower file_name) ''.msi'' then
        (case get_path P ''msiexec.exe'' (world s) of
           Inl e \<Rightarrow> (Inl e, s)
         | Inr msi_path \<Rightarrow>
             launch P msi_path (Some (''/I '' @ [DQ] @ file_path @ [DQ])) file_path s)
      else if endswith_any (lower file_name) [''.js'', ''.jse'', ''.vbs'', ''.vbe'', ''.wsf''] then
        (case get_path P ''cmd.exe'' (world s) of
           Inl e \<Rightarrow> (Inl e, s)
         | Inr cmd_path \<Rightarrow>
             (case get_path_app_in_path P ''wscript.exe'' (world s) of
                Inl e \<Rightarrow> (Inl e, s)
              | Inr wscript \<Rightarrow>
                  launch P cmd_path (Some (wscript_args root wscript file_path)) file_path s))
      else if endswith_any (lower file_name) [''.dll'', ''.db'', ''.dat'', ''.tmp'', ''.temp''] then
        (if \<not> endswith (lower file_name) ''.dll'' then
           (case open_rb P file_path (world s) of
              Inl e \<Rightarrow> (Inl e, s)
            | Inr f \<Rightarrow>
                if \<not> any_indicator_in_read PE_INDICATORS f then (Inr None, s)
                else run_dll P file_path s)
         else run_dll P file_path s)
      else if endswith (lower file_name) ''.ps1'' then
        (case get_path_app_in_path P ''powershell.exe'' (world s) of
           Inl e \<Rightarrow> (Inl e, s)
         | Inr powershell \<Rightarrow>
             launch P powershell
               (Some (''-NoProfile -ExecutionPolicy bypass -File '' @ [DQ] @ file_path @ [DQ]))
               file_path s)
      else if endswith (lower file_name) ''.doc'' then
        (case (case get_path_glob P ''WINWORD.EXE'' (world s) of
                 Inl (CuckooPackageError m) \<Rightarrow> get_path_glob P ''WORDVIEW.EXE'' (world s)
               | r \<Rightarrow> r) of
           Inl e \<Rightarrow> (Inl e, s)
         | Inr word \<Rightarrow> launch P word (Some ([DQ] @ file_path @ [DQ] @ '' /q'')) file_path s)
      else if endswith (lower file_name) ''.xls'' then
        (case get_path_glob P ''EXCEL.EXE'' (world s) of
           Inl e \<Rightarrow> (Inl e, s)
         | Inr excel \<Rightarrow> launch P excel (Some ([DQ] @ file_path @ [DQ] @ '' /q'')) file_path s)
      else
        (case is_pe_image P file_path (world s) of
           Inl e \<Rightarrow> (Inl e, s)
         | Inr True \<Rightarrow>
             (case check_file_extension P file_path ''.exe'' (world s) of
                (Inl e, w) \<Rightarrow> (Inl e, s\<lparr>world := w\<rparr>)
              | (Inr file_path', w) \<Rightarrow>
                  launch P file_path' (options P ''arguments'') file_path' (s\<lparr>world := w\<rparr>))
         | Inr False \<Rightarrow>
             (case get_path P ''cmd.exe'' (world s) of
                Inl e \<Rightarrow> (Inl e, s)
              | Inr cmd_path \<Rightarrow>
                  launch P cmd_path (Some (shell_start_args root file_path)) file_path s)))"

text \<open>
  A guest on which to run the dispatcher: the world maps a path to the bytes of the
  file there, every launcher is found under the system directory, the export chosen for
  a library is fixed by \<open>export\<close>, and \<open>execute\<close> returns a process identifier.
\<close>

definition SYSTEM32 :: string where
  "SYSTEM32 = ''C:'' @ [BSL] @ ''Windows'' @ [BSL] @ ''System32''"

definition guest_paths :: os_path where
  "guest_paths =
     \<lparr>path_join = (\<lambda>a b. a @ [BSL] @ b),
      path_dirname = (\<lambda>p. rev (drop 1 (dropWhile (\<lambda>c. c \<noteq> BSL) (rev p)))),
      path_basename = (\<lambda>p. rev (takeWhile (\<lambda>c. c \<noteq> BSL) (rev p)))\<rparr>"

definition guest_package ::
  "string option \<Rightarrow> (string \<Rightarrow> string option) \<Rightarrow> ((string \<times> string) list, nat) package" where
  "guest_package export opts =
     \<lparr>options = opts,
      get_path = (\<lambda>name w. Inr (SYSTEM32 @ [BSL] @ name)),
      get_path_app_in_path = (\<lambda>name w. Inr (SYSTEM32 @ [BSL] @ name)),
      get_path_glob = (\<lambda>name w. Inl (CuckooPackageError (''Unable to find '' @ name))),
      execute = (\<lambda>path args target w. (Inr 4242, w)),
      choose_dll_export = (\<lambda>p w. Inr export),
      is_pe_image = (\<lambda>p w. Inr (case map_of w p of
                                   None \<Rightarrow> False | Some f \<Rightarrow> take 2 f = ''MZ'')),
      check_file_extension = (\<lambda>p ext w. (Inr p, w)),
      open_rb = (\<lambda>p w. case map_of w p of
                          None \<Rightarrow> Inl (OSError ''No such file or directory'')
                        | Some f \<Rightarrow> Inr f),
      shutil_copy = (\<lambda>src dst w. (None, w)),
      pkg_paths = guest_paths\<rparr>"


section \<open>Native backend: \<open>is_overwritten\<close> and \<open>extract_zip\<close>\<close>

text \<open>
  The \<open>zipfile\<close> and \<open>shutil\<close> calls are parameters. \<open>ZipFile\<close> opens an archive
  read-only and gives a handle or raises; \<open>infolist\<close> reads the member records of an
  open archive, and \<open>namelist\<close> is their names, as in the library; \<open>extractall\<close>
  and \<open>move\<close> change the world and may raise. \<open>str_encode\<close> is \<open>str.encode\<close>.

  \<open>CuckooPackageError\<close> is declared in \<open>lib.common.exceptions\<close>, outside the sources
  at hand; whether it derives from \<open>RuntimeError\<close> decides what \<open>except RuntimeError\<close>
  catches, and is the parameter \<open>cuckoo_is_runtime_error\<close>.
\<close>

record zipinfo =
  filename :: string
  flag_bits :: "16 word"

record ('w, 'z) zip_lib =
  ZipFile :: "string \<Rightarrow> 'w \<Rightarrow> exn + 'z"
  infolist :: "'z \<Rightarrow> zipinfo list"
  extractall :: "'z \<Rightarrow> string \<Rightarrow> string \<Rightarrow> 'w \<Rightarrow> exn option \<times> 'w"
  move :: "string \<Rightarrow> string \<Rightarrow> 'w \<Rightarrow> exn option \<times> 'w"
  zip_paths :: os_path
  str_encode :: "string \<Rightarrow> string"
  cuckoo_is_runtime_error :: bool

definition namelist :: "('w, 'z) zip_lib \<Rightarrow> 'z \<Rightarrow> string list" where
  "namelist L archive = map filename (infolist L archive)"

text \<open>What \<open>except BadZipfile\<close> and \<open>except RuntimeError\<close> catch.\<close>

fun is_BadZipfile :: "exn \<Rightarrow> bool" where
  "is_BadZipfile (BadZipfile m) = True"
| "is_BadZipfile e = False"

fun is_RuntimeError :: "('w, 'z) zip_lib \<Rightarrow> exn \<Rightarrow> bool" where
  "is_RuntimeError L (RuntimeError m) = True"
| "is_RuntimeError L (CuckooPackageError m) = cuckoo_is_runtime_error L"
| "is_RuntimeError L e = False"

text \<open>
  \<open>is_overwritten\<close>: the archive is opened by the \<open>with\<close> statement, which stands
  outside the \<open>try\<close>, so what the opening raises leaves the function as it is. The
  guarded expression reads the member names of the open archive and compares strings;
  it raises nothing, and the handler is never entered.
\<close>

definition is_overwritten :: "('w, 'z) zip_lib \<Rightarrow> string \<Rightarrow> 'w \<Rightarrow> exn + bool" where
  "is_overwritten L zip_path w =
     (case ZipFile L zip_path w of
        Inl e \<Rightarrow> Inl e
      | Inr archive \<Rightarrow>
          Inr (list_ex (\<lambda>name. name = path_basename (zip_paths L) zip_path)
                 (namelist L archive)))"

text \<open>The password argument is a \<open>str\<close> or a \<open>bytes\<close> value.\<close>

datatype password = Str string | Bytes string

fun to_bytes :: "('w, 'z) zip_lib \<Rightarrow> password \<Rightarrow> string" where
  "to_bytes L (Str p) = str_encode L p"
| "to_bytes L (Bytes p) = p"

definition INFECTED :: string where
  "INFECTED = ''infected''"

text \<open>The body of the loop over \<open>archive.infolist()\<close>, lines 211 to 218.\<close>

definition is_encrypted :: "zipinfo \<Rightarrow> bool" where
  "is_encrypted zip_info = (and (flag_bits zip_info) 1 \<noteq> 0)"

definition check_encrypted :: "zipinfo \<Rightarrow> string \<Rightarrow> string" where
  "check_encrypted zip_info password =
     (if is_encrypted zip_info \<and> (password = [] \<or> password = INFECTED)
      then (if password = [] then INFECTED else password)
      else password)"

fun password_loop :: "zipinfo list \<Rightarrow> string \<Rightarrow> string" where
  "password_loop [] password = password"
| "password_loop (zip_info # rest) password =
     password_loop rest (check_encrypted zip_info password)"

definition do_extractall ::
  "('w, 'z) zip_lib \<Rightarrow> 'z \<Rightarrow> string \<Rightarrow> string \<Rightarrow> 'w state \<Rightarrow> exn option \<times> 'w state" where
  "do_extractall L archive extract_path password s =
     (case extractall L archive extract_path password (world s) of
        (r, w) \<Rightarrow> (r, \<lparr>world = w, trace = trace s @ [ExtractAll extract_path password]\<rparr>))"

text \<open>
  The \<open>try\<close> statement without its \<open>finally\<close> clause, lines 221 to 230: the result is
  the exception left pending, if any.
\<close>

definition try_extract ::
  "('w, 'z) zip_lib \<Rightarrow> 'z \<Rightarrow> string \<Rightarrow> string \<Rightarrow> 'w state \<Rightarrow> exn option \<times> 'w state" where
  "try_extract L archive extract_path password s =
     (case do_extractall L archive extract_path password s of
        (None, s1) \<Rightarrow> (None, s1)
      | (Some e, s1) \<Rightarrow>
          if is_BadZipfile e then (Some (CuckooPackageError ''Invalid Zip file''), s1)
          else if is_RuntimeError L e then
            (case do_extractall L archive extract_path password s1 of
               (None, s2) \<Rightarrow> (None, s2)
             | (Some e2, s2) \<Rightarrow>
                 if is_RuntimeError L e2
                 then (Some (CuckooPackageError (''Unable to extract Zip file: '' @ message e2)), s2)
                 else (Some e2, s2))
          else (Some e, s1))"

text \<open>
  The loop over \<open>archive.namelist()\<close>, lines 234 to 247. \<open>recurse name\<close> is the
  recursive call for the member \<open>name\<close>. An exception that neither handler catches
  ends the loop and is the result.
\<close>

fun nested_loop ::
  "('w, 'z) zip_lib \<Rightarrow> (string \<Rightarrow> 'w state \<Rightarrow> (exn + unit) \<times> 'w state) \<Rightarrow> string list
     \<Rightarrow> 'w state \<Rightarrow> exn option \<times> 'w state" where
  "nested_loop L recurse [] s = (None, s)"
| "nested_loop L recurse (name # names) s =
     (if endswith name ''.zip'' then
        (case recurse name s of
           (Inr u, s1) \<Rightarrow> nested_loop L recurse names s1
         | (Inl e, s1) \<Rightarrow>
             if is_BadZipfile e then nested_loop L recurse names (emit (Log_warning name) s1)
             else if is_RuntimeError L e
             then nested_loop L recurse names (emit (Log_error name (message e)) s1)
             else (Some e, s1))
      else nested_loop L recurse names s)"

text \<open>
  \<open>extract_zip\<close>. The \<open>finally\<close> clause runs whether or not an exception is pending;
  an exception that leaves it replaces the pending one, and otherwise the pending
  exception is raised again.
\<close>

function extract_zip ::
  "('w, 'z) zip_lib \<Rightarrow> string \<Rightarrow> string \<Rightarrow> password \<Rightarrow> int \<Rightarrow> 'w state
     \<Rightarrow> (exn + unit) \<times> 'w state" where
  "extract_zip L zip_path extract_path password recursion_depth s0 =
     (let s = emit (Call_extract_zip zip_path recursion_depth) s0 in
      case is_overwritten L zip_path (world s) of
        Inl e \<Rightarrow> (Inl e, s)
      | Inr overwritten \<Rightarrow>
          (case (if overwritten
                 then (case move L zip_path (zip_path @ ''.old'') (world s) of
                         (Some e, w) \<Rightarrow>
                           (Inl e, \<lparr>world = w,
                                    trace = trace s @ [Move zip_path (zip_path @ ''.old'')]\<rparr>)
                       | (None, w) \<Rightarrow>
                           (Inr (zip_path @ ''.old''),
                            \<lparr>world = w,
                             trace = trace s @ [Move zip_path (zip_path @ ''.old'')]\<rparr>))
                 else (Inr zip_path, s)) of
             (Inl e, s1) \<Rightarrow> (Inl e, s1)
           | (Inr zip_path, s1) \<Rightarrow>
               (let password = to_bytes L password in
                case ZipFile L zip_path (world s1) of
                  Inl e \<Rightarrow> (Inl e, s1)
                | Inr archive \<Rightarrow>
                    (let password = password_loop (infolist L archive) password in
                     case try_extract L archive extract_path password s1 of
                       (pending, s2) \<Rightarrow>
                         (case (if recursion_depth < 4
                                then nested_loop L
                                       (\<lambda>name. extract_zip L
                                          (path_join (zip_paths L) extract_path name)
                                          extract_path (Bytes password) (recursion_depth + 1))
                                       (namelist L archive) s2
                                else (None, s2)) of
                            (Some e, s3) \<Rightarrow> (Inl e, s3)
                          | (None, s3) \<Rightarrow>
                              (case pending of
                                 Some e \<Rightarrow> (Inl e, s3)
                               | None \<Rightarrow> (Inr (), s3)))))))"
  by pat_completeness auto
termination
  by (relation "measure (\<lambda>(L, zip_path, extract_path, password, recursion_depth, s0).
                           nat (4 - recursion_depth))") auto


declare extract_zip.simps [simp del]

text \<open>
  An archive library in memory, on which to run \<open>extract_zip\<close>. A file is plain data or
  an archive; a member has a name, its flag bits, the password that decrypts it when it
  is encrypted, and its content. The world lists the files by path, the newest first.
  \<open>extractall\<close> writes the members in order and raises \<open>RuntimeError\<close> at the first
  encrypted member that the password does not open.
\<close>

datatype fsfile = Data string | Zip "member list"
  and member = Member string "16 word" string fsfile

fun member_info :: "member \<Rightarrow> zipinfo" where
  "member_info (Member name flags pwd content) = \<lparr>filename = name, flag_bits = flags\<rparr>"

fun memory_extractall ::
  "member list \<Rightarrow> string \<Rightarrow> string \<Rightarrow> (string \<times> fsfile) list \<Rightarrow> exn option \<times> (string \<times> fsfile) list" where
  "memory_extractall [] path pwd w = (None, w)"
| "memory_extractall (Member name flags member_pwd content # rest) path pwd w =
     (if and flags 1 \<noteq> 0 \<and> pwd \<noteq> member_pwd
      then (Some (RuntimeError ''Bad password for file''), w)
      else memory_extractall rest path pwd ((path @ [BSL] @ name, content) # w))"

definition memory_zip_lib :: "bool \<Rightarrow> ((string \<times> fsfile) list, member list) zip_lib" where
  "memory_zip_lib cuckoo_rt =
     \<lparr>ZipFile = (\<lambda>p w. case map_of w p of
                          None \<Rightarrow> Inl (OSError ''No such file or directory'')
                        | Some (Data d) \<Rightarrow> Inl (BadZipfile ''File is not a zip file'')
                        | Some (Zip members) \<Rightarrow> Inr members),
      infolist = map member_info,
      extractall = memory_extractall,
      move = (\<lambda>src dst w. case map_of w src of
                            None \<Rightarrow> (Some (OSError ''No such file or directory''), w)
                          | Some f \<Rightarrow> (None, (dst, f) # filter (\<lambda>(p, f). p \<noteq> src) w)),
      zip_paths = guest_paths,
      str_encode = (\<lambda>p. p),
      cuckoo_is_runtime_error = cuckoo_rt\<rparr>"

section \<open>Listing parser: \<open>FILE_NAME_REGEX\<close> and \<open>get_file_names\<close>\<close>

text \<open>
  A backtracking matcher for the constructs that \<open>FILE_NAME_REGEX\<close> uses: a character
  class, a sequence, a greedy optional part and a greedy repetition of one or more.
  \<open>bt r s\<close> lists what can remain of \<open>s\<close> after a match of \<open>r\<close> at its start, in the
  order in which the engine tries the alternatives: a greedy operator tries to take more
  before it tries to take less. A repetition goes on only after a step that consumed
  input.
\<close>

datatype regex = Chars "char \<Rightarrow> bool" | Seq regex regex | Opt regex | Plus regex

function bt :: "regex \<Rightarrow> string \<Rightarrow> string list" where
  "bt (Chars p) s = (case s of [] \<Rightarrow> [] | c # cs \<Rightarrow> if p c then [cs] else [])"
| "bt (Seq a b) s = concat (map (bt b) (bt a s))"
| "bt (Opt a) s = bt a s @ [s]"
| "bt (Plus a) s =
     concat (map (\<lambda>s'. (if length s' < length s then bt (Plus a) s' else []) @ [s']) (bt a s))"
  by pat_completeness auto
termination
  by (relation "measures [\<lambda>(r, s). size r, \<lambda>(r, s). length s]") auto

text \<open>
  The classes of the pattern: \<open>\s\<close> on text (the whitespace characters below 256)
  and \<open>[a-zA-Z0-9\.\-,_\\]\<close>.
\<close>

definition isspace :: "char \<Rightarrow> bool" where
  "isspace c = ((of_char c :: nat) \<in> {9, 10, 11, 12, 13, 28, 29, 30, 31, 32, 133, 160})"

definition name_char :: "char \<Rightarrow> bool" where
  "name_char c =
     (let n = (of_char c :: nat)
      in (97 \<le> n \<and> n \<le> 122) \<or> (65 \<le> n \<and> n \<le> 90) \<or> (48 \<le> n \<and> n \<le> 57)
         \<or> c = CHR ''.'' \<or> c = CHR ''-'' \<or> c = CHR '','' \<or> c = CHR ''_'' \<or> c = BSL)"

text \<open>
  The pattern is two whitespace characters, the first group, and a carriage return.
  The first group is one or more blocks, a block being a run of name characters followed
  optionally by one space and another run.
\<close>

definition WS2 :: regex where
  "WS2 = Seq (Chars isspace) (Chars isspace)"

definition NAME_GROUP :: regex where
  "NAME_GROUP =
     Plus (Seq (Plus (Chars name_char))
               (Opt (Seq (Chars (\<lambda>c. c = CHR '' '')) (Plus (Chars name_char)))))"

definition CR_TAIL :: regex where
  "CR_TAIL = Chars (\<lambda>c. c = CR)"

text \<open>
  A match of the whole pattern at the start of \<open>s\<close>: the first way, in the order of the
  engine, to match the three parts in sequence; the result is the text of the first
  group.
\<close>

definition FILE_NAME_match :: "string \<Rightarrow> string option" where
  "FILE_NAME_match s =
     (case concat (map (\<lambda>s1. concat (map (\<lambda>s2. if bt CR_TAIL s2 \<noteq> [] then [(s1, s2)] else [])
                                          (bt NAME_GROUP s1)))
                       (bt WS2 s)) of
        [] \<Rightarrow> None
      | (s1, s2) # others \<Rightarrow> Some (take (length s1 - length s2) s1))"

text \<open>\<open>re.search(FILE_NAME_REGEX, line)\<close> with \<open>group(1)\<close>: the leftmost start that matches.\<close>

fun FILE_NAME_search :: "string \<Rightarrow> string option" where
  "FILE_NAME_search [] = FILE_NAME_match []"
| "FILE_NAME_search (c # cs) =
     (case FILE_NAME_match (c # cs) of
        Some file_name \<Rightarrow> Some file_name
      | None \<Rightarrow> FILE_NAME_search cs)"

text \<open>\<open>str.split\<close> with a one-character separator.\<close>

fun split :: "char \<Rightarrow> string \<Rightarrow> string list" where
  "split sep [] = [[]]"
| "split sep (c # cs) =
     (if c = sep then [] # split sep cs
      else (case split sep cs of [] \<Rightarrow> [[c]] | l # ls \<Rightarrow> (c # l) # ls))"

definition TABLE_HEADERS :: "string list" where
  "TABLE_HEADERS = [''Date'', ''Time'', ''Attr'', ''Size'', ''Compressed'', ''Name'']"

definition is_table_header :: "string \<Rightarrow> bool" where
  "is_table_header line = list_all (\<lambda>item. contains (lower line) (lower item)) TABLE_HEADERS"

text \<open>The loop over the lines, with the three variables it updates.\<close>

fun listing_loop :: "bool \<Rightarrow> bool \<Rightarrow> string list \<Rightarrow> string list \<Rightarrow> string list" where
  "listing_loop in_table items_under_header file_names [] = file_names"
| "listing_loop in_table items_under_header file_names (line # lines) =
     (if in_table then
        (if contains line ''-----'' then
           listing_loop in_table (if items_under_header then False else True) file_names lines
         else if items_under_header then
           (case FILE_NAME_search line of
              Some file_name \<Rightarrow>
                listing_loop in_table items_under_header (file_names @ [file_name]) lines
            | None \<Rightarrow> listing_loop in_table items_under_header file_names lines)
         else listing_loop in_table items_under_header file_names lines)
      else if is_table_header line then
        listing_loop True items_under_header file_names lines
      else listing_loop in_table items_under_header file_names lines)"

definition parse_listing :: "string \<Rightarrow> string list" where
  "parse_listing stdoutput = listing_loop False False [] (split LF stdoutput)"

definition get_file_names ::
  "'w tool_lib \<Rightarrow> string \<Rightarrow> string \<Rightarrow> 'w state \<Rightarrow> (exn + string list) \<times> 'w state" where
  "get_file_names L seven_zip_path archive_path s =
     (case run L [seven_zip_path, ''l'', archive_path] s of
        (Inl e, s1) \<Rightarrow> (Inl e, s1)
      | (Inr p, s1) \<Rightarrow>
          (case bytes_decode L (stdout p) of
             Inl e \<Rightarrow> (Inl e, s1)
           | Inr stdoutput \<Rightarrow> (Inr (parse_listing stdoutput), s1)))"

text \<open>A line of the listing: the columns before the name, two spaces, the name, a carriage return.\<close>

definition member_line :: "string \<Rightarrow> string \<Rightarrow> string" where
  "member_line columns name = columns @ ''  '' @ name @ [CR]"

text \<open>The lines of a report, each ended by a line feed but the last.\<close>

fun join_lines :: "string list \<Rightarrow> string" where
  "join_lines [] = []"
| "join_lines [l] = l"
| "join_lines (l # ls) = l @ [LF] @ join_lines ls"


text \<open>Tool outputs on which to run \<open>extract_archive\<close>.\<close>

definition wrong_twice :: "completed list" where
  "wrong_twice =
     [\<lparr>stdout = '''', stderr = ''ERROR: Wrong password : a.txt''\<rparr>,
      \<lparr>stdout = '''', stderr = ''ERROR: Wrong password : a.txt''\<rparr>]"

definition not_an_archive :: "completed list" where
  "not_an_archive =
     [\<lparr>stdout = ''ERROR: a.7z Can not open the file as archive'', stderr = ''''\<rparr>]"

definition wrong_and_not_archive :: "completed list" where
  "wrong_and_not_archive =
     [\<lparr>stdout = ''Can not open the file as archive'', stderr = ''ERROR: Wrong password : a.txt''\<rparr>,
      \<lparr>stdout = ''Can not open the file as archive'', stderr = ''''\<rparr>]"

text \<open>
  A file that begins like an image and holds the two bytes \<open>MZ\<close> after its first
  sixty-four bytes.
\<close>

definition gif_with_mz :: string where
  "gif_with_mz = ''GIF89a'' @ replicate 58 (CHR 0x00) @ ''MZ''"

text \<open>
  What a call added to the trace, and the recursion depths of the entries into
  \<open>extract_zip\<close> among some actions.
\<close>

definition new_actions :: "'w state \<Rightarrow> 'w state \<Rightarrow> action list" where
  "new_actions s s' = drop (length (trace s)) (trace s')"

fun call_depths :: "action list \<Rightarrow> int list" where
  "call_depths [] = []"
| "call_depths (Call_extract_zip p d # rest) = d # call_depths rest"
| "call_depths (a # rest) = call_depths rest"

text \<open>The password that the extraction of an archive with the given members uses.\<close>

definition effective_password :: "zipinfo list \<Rightarrow> string \<Rightarrow> string" where
  "effective_password infos password =
     (if list_ex is_encrypted infos \<and> password = [] then INFECTED else password)"

text \<open>All entries into \<open>extract_zip\<close> among some actions have a depth from \<open>lo\<close> to 4.\<close>

definition depths_within :: "int \<Rightarrow> action list \<Rightarrow> bool" where
  "depths_within lo new = list_all (\<lambda>k. lo \<le> k \<and> k \<le> 4) (call_depths new)"

text \<open>Archives in memory: five levels of nesting, and a parent of two nested archives.\<close>

definition level5 :: fsfile where
  "level5 = Zip [Member ''payload.exe'' 0 '''' (Data ''MZ'')]"

definition level4 :: fsfile where
  "level4 = Zip [Member ''l5.zip'' 0 '''' level5]"

definition level3 :: fsfile where
  "level3 = Zip [Member ''l4.zip'' 0 '''' level4]"

definition level2 :: fsfile where
  "level2 = Zip [Member ''l3.zip'' 0 '''' level3]"

definition level1 :: fsfile where
  "level1 = Zip [Member ''l2.zip'' 0 '''' level2]"

definition locked :: fsfile where
  "locked = Zip [Member ''secret.txt'' 1 ''other'' (Data ''x'')]"

definition plain :: fsfile where
  "plain = Zip [Member ''c.txt'' 0 '''' (Data ''c'')]"

definition parent :: fsfile where
  "parent = Zip [Member ''a.zip'' 0 '''' locked, Member ''b.zip'' 0 '''' plain]"

definition sealed :: fsfile where
  "sealed = Zip [Member ''readme.txt'' 0 '''' (Data ''r''), Member ''sample.exe'' 1 ''infected'' (Data ''MZ'')]"

definition selfnamed :: fsfile where
  "selfnamed = Zip [Member ''s.zip'' 1 ''infected'' (Data ''MZ'')]"

section \<open>Properties: text and suffixes\<close>

lemma endswith_iff: "endswith s suf \<longleftrightarrow> (\<exists>p. s = p @ suf)"
proof
  assume "endswith s suf"
  then have "s = take (length s - length suf) s @ suf"
    by (metis append_take_drop_id endswith_def)
  then show "\<exists>p. s = p @ suf" ..
next
  assume "\<exists>p. s = p @ suf"
  then show "endswith s suf" by (auto simp: endswith_def)
qed

lemma lower_append: "lower (a @ b) = lower a @ lower b"
  by (simp add: lower_def)

lemma length_lower: "length (lower s) = length s"
  by (simp add: lower_def)

section \<open>Properties: the file classifier\<close>



section \<open>Properties: the external-tool backend\<close>

lemma extract_archive_first_fails:
  assumes "subprocess_run L (first_argv z a x) (world s) = (Inl e, w1)"
  shows "extract_archive L z a x pw s =
           (Inl e, \<lparr>world = w1, trace = trace s @ [Run (first_argv z a x)]\<rparr>)"
  using assms by (simp add: extract_archive_def run_def)

lemma extract_archive_no_retry:
  assumes "subprocess_run L (first_argv z a x) (world s) = (Inr p1, w1)"
    and "\<not> contains (stderr p1) WRONG_PASSWORD"
  shows "extract_archive L z a x pw s =
           (if contains (stdout p1) NOT_AN_ARCHIVE
            then Inl (TypeError ''Unable to open the file as archive'') else Inr (),
            \<lparr>world = w1, trace = trace s @ [Run (first_argv z a x)]\<rparr>)"
  using assms by (simp add: extract_archive_def run_def)

lemma extract_archive_retry:
  assumes "subprocess_run L (first_argv z a x) (world s) = (Inr p1, w1)"
    and "contains (stderr p1) WRONG_PASSWORD"
    and "subprocess_run L (retry_argv z a x pw)
           (if path_match L x LOCAL_TEMP then w1 else rmtree L x w1) = (r2, w3)"
  shows "extract_archive L z a x pw s =
           (case r2 of
              Inl e \<Rightarrow> Inl e
            | Inr p2 \<Rightarrow> if contains (stderr p2) WRONG_PASSWORD
                        then Inl (Exception ''Wrong password provided'') else Inr (),
            \<lparr>world = w3,
             trace = trace s @ [Run (first_argv z a x)]
                       @ (if path_match L x LOCAL_TEMP then [] else [Rmtree x])
                       @ [Run (retry_argv z a x pw)]\<rparr>)"
  using assms
  by (auto simp: extract_archive_def run_def do_rmtree_def Let_def split: sum.splits)

text \<open>
  C5, as stated, fails in its last part: when the first run reports a wrong password
  and the retry does not, no error is raised, whatever the standard output of either run
  holds. Here both runs print the line that says the file is no archive, and
  \<open>extract_archive\<close> returns normally.
\<close>

theorem extract_archive_not_an_archive_unchecked:
  "contains (stdout (wrong_and_not_archive ! 0)) NOT_AN_ARCHIVE
   \<and> contains (stdout (wrong_and_not_archive ! 1)) NOT_AN_ARCHIVE
   \<and> fst (extract_archive (scripted_tool False) ''7z.exe'' ''a.7z'' ''out'' ''infected''
            \<lparr>world = wrong_and_not_archive, trace = []\<rparr>) = Inr ()"
  by code_simp

text \<open>
  C5, amended: for every call of \<open>extract_archive\<close> whose first run of the tool
  completes: if the standard error of that run contains \<open>Wrong password\<close>, the
  destination tree is deleted, unless its path matches the local-temp pattern, and the
  tool is run exactly once more, with the password argument (by default
  \<open>infected\<close>); if the standard error of the retry contains \<open>Wrong password\<close> again,
  \<open>Exception\<close> with the message \<open>Wrong password provided\<close> is raised, and otherwise
  the call returns; and if the standard error of the first run does not contain
  \<open>Wrong password\<close> and its standard output contains
  \<open>Can not open the file as archive\<close>, \<open>TypeError\<close> is raised after that one run.
\<close>

theorem extract_archive_password_retry:
  assumes "subprocess_run L (first_argv z a x) (world s) = (Inr p1, w1)"
  shows "(contains (stderr p1) WRONG_PASSWORD \<longrightarrow>
            trace (snd (extract_archive L z a x pw s)) =
              trace s @ [Run (first_argv z a x)]
                @ (if path_match L x LOCAL_TEMP then [] else [Rmtree x])
                @ [Run (retry_argv z a x pw)]
            \<and> (\<forall>p2 w3. subprocess_run L (retry_argv z a x pw)
                          (if path_match L x LOCAL_TEMP then w1 else rmtree L x w1) = (Inr p2, w3)
                   \<longrightarrow> fst (extract_archive L z a x pw s) =
                         (if contains (stderr p2) WRONG_PASSWORD
                          then Inl (Exception ''Wrong password provided'') else Inr ())))
       \<and> (\<not> contains (stderr p1) WRONG_PASSWORD \<and> contains (stdout p1) NOT_AN_ARCHIVE \<longrightarrow>
            fst (extract_archive L z a x pw s) = Inl (TypeError ''Unable to open the file as archive'')
            \<and> trace (snd (extract_archive L z a x pw s)) = trace s @ [Run (first_argv z a x)])"
proof (intro conjI impI allI)
  assume wp: "contains (stderr p1) WRONG_PASSWORD"
  obtain r2 w3 where r: "subprocess_run L (retry_argv z a x pw)
           (if path_match L x LOCAL_TEMP then w1 else rmtree L x w1) = (r2, w3)"
    by (cases "subprocess_run L (retry_argv z a x pw)
           (if path_match L x LOCAL_TEMP then w1 else rmtree L x w1)") blast
  show "trace (snd (extract_archive L z a x pw s)) =
              trace s @ [Run (first_argv z a x)]
                @ (if path_match L x LOCAL_TEMP then [] else [Rmtree x])
                @ [Run (retry_argv z a x pw)]"
    using extract_archive_retry [OF assms wp r] by simp
next
  fix p2 w3
  assume wp: "contains (stderr p1) WRONG_PASSWORD"
    and r: "subprocess_run L (retry_argv z a x pw)
              (if path_match L x LOCAL_TEMP then w1 else rmtree L x w1) = (Inr p2, w3)"
  show "fst (extract_archive L z a x pw s) =
          (if contains (stderr p2) WRONG_PASSWORD
           then Inl (Exception ''Wrong password provided'') else Inr ())"
    using extract_archive_retry [OF assms wp r] by simp
next
  assume h: "\<not> contains (stderr p1) WRONG_PASSWORD \<and> contains (stdout p1) NOT_AN_ARCHIVE"
  then show "fst (extract_archive L z a x pw s) = Inl (TypeError ''Unable to open the file as archive'')"
    using extract_archive_no_retry [OF assms, of pw] by simp
next
  assume h: "\<not> contains (stderr p1) WRONG_PASSWORD \<and> contains (stdout p1) NOT_AN_ARCHIVE"
  then show "trace (snd (extract_archive L z a x pw s)) = trace s @ [Run (first_argv z a x)]"
    using extract_archive_no_retry [OF assms, of pw] by simp
qed

theorem extract_archive_password_retry_witness:
  "trace (snd (extract_archive (scripted_tool False) ''7z.exe'' ''a.7z'' ''out'' ''infected''
      \<lparr>world = wrong_twice, trace = []\<rparr>)) =
     [Run [''7z.exe'', ''x'', ''-p'', ''-y'', ''-oout'', ''a.7z''], Rmtree ''out'',
      Run [''7z.exe'', ''x'', ''-pinfected'', ''-y'', ''-oout'', ''a.7z'']]
   \<and> fst (extract_archive (scripted_tool False) ''7z.exe'' ''a.7z'' ''out'' ''infected''
      \<lparr>world = wrong_twice, trace = []\<rparr>) = Inl (Exception ''Wrong password provided'')
   \<and> fst (extract_archive (scripted_tool False) ''7z.exe'' ''a.7z'' ''out'' ''infected''
      \<lparr>world = not_an_archive, trace = []\<rparr>) = Inl (TypeError ''Unable to open the file as archive'')
   \<and> trace (snd (extract_archive (scripted_tool False) ''7z.exe'' ''a.7z'' ''out'' ''infected''
      \<lparr>world = not_an_archive, trace = []\<rparr>)) =
     [Run [''7z.exe'', ''x'', ''-p'', ''-y'', ''-oout'', ''a.7z'']]"
proof -
  let ?L = "scripted_tool False"
  let ?s = "\<lparr>world = wrong_twice, trace = []\<rparr>"
  let ?p = "\<lparr>stdout = '''', stderr = ''ERROR: Wrong password : a.txt''\<rparr>"
  let ?t = "\<lparr>world = not_an_archive, trace = []\<rparr>"
  let ?q = "\<lparr>stdout = ''ERROR: a.7z Can not open the file as archive'', stderr = ''''\<rparr>"
  have wp: "contains (stderr ?p) WRONG_PASSWORD" by code_simp
  have r1: "subprocess_run ?L (first_argv ''7z.exe'' ''a.7z'' ''out'') (world ?s) = (Inr ?p, [?p])"
    by (simp add: scripted_tool_def wrong_twice_def)
  have r2: "subprocess_run ?L (retry_argv ''7z.exe'' ''a.7z'' ''out'' ''infected'')
          (if path_match ?L ''out'' LOCAL_TEMP then [?p] else rmtree ?L ''out'' [?p]) = (Inr ?p, [])"
    by (simp add: scripted_tool_def)
  have nwp: "\<not> contains (stderr ?q) WRONG_PASSWORD" by code_simp
  have na: "contains (stdout ?q) NOT_AN_ARCHIVE" by code_simp
  have q1: "subprocess_run ?L (first_argv ''7z.exe'' ''a.7z'' ''out'') (world ?t) = (Inr ?q, [])"
    by (simp add: scripted_tool_def not_an_archive_def)
  show ?thesis
    using extract_archive_password_retry [OF r1, of "''infected''"] wp r2
      extract_archive_password_retry [OF q1, of "''infected''"] nwp na
    by (simp add: first_argv_def retry_argv_def scripted_tool_def)
qed

text \<open>
  C10: for every call of \<open>extract_archive\<close>, whatever the password argument, the first
  action is a run of the tool with the bare flag \<open>-p\<close>. Either nothing follows, or the
  first run completed with \<open>Wrong password\<close> on its standard error and what follows is
  the deletion of the destination tree, if any, and one run with the flag \<open>-p\<close> joined
  to the password argument.
\<close>

theorem extract_archive_first_run:
  "\<exists>rest. trace (snd (extract_archive L z a x pw s)) =
             trace s @ Run [z, ''x'', ''-p'', ''-y'', ''-o'' @ x, a] # rest
     \<and> (rest = []
        \<or> (\<exists>p1 w1. subprocess_run L [z, ''x'', ''-p'', ''-y'', ''-o'' @ x, a] (world s) = (Inr p1, w1)
               \<and> contains (stderr p1) WRONG_PASSWORD)
           \<and> (rest = [Run [z, ''x'', ''-p'' @ pw, ''-y'', ''-o'' @ x, a]]
                \<or> rest = [Rmtree x, Run [z, ''x'', ''-p'' @ pw, ''-y'', ''-o'' @ x, a]]))"
proof (cases "subprocess_run L (first_argv z a x) (world s)")
  case (Pair r1 w1)
  show ?thesis
  proof (cases r1)
    case (Inl e)
    then show ?thesis
      using extract_archive_first_fails [of L z a x s e w1 pw] Pair
      by (simp add: first_argv_def)
  next
    case (Inr p1)
    show ?thesis
    proof (cases "contains (stderr p1) WRONG_PASSWORD")
      case False
      then show ?thesis
        using extract_archive_no_retry [of L z a x s p1 w1 pw] Pair Inr
        by (simp add: first_argv_def)
    next
      case True
      obtain r2 w3 where r: "subprocess_run L (retry_argv z a x pw)
           (if path_match L x LOCAL_TEMP then w1 else rmtree L x w1) = (r2, w3)"
        by (cases "subprocess_run L (retry_argv z a x pw)
           (if path_match L x LOCAL_TEMP then w1 else rmtree L x w1)") blast
      have "subprocess_run L (first_argv z a x) (world s) = (Inr p1, w1)"
        using Pair Inr by simp
      from extract_archive_retry [OF this True r] Pair Inr True show ?thesis
        by (simp add: first_argv_def retry_argv_def)
    qed
  qed
qed

section \<open>Properties: the execution dispatcher\<close>

lemma endswith_conflict:
  assumes "endswith s a" and "endswith s b"
  shows "endswith a b \<or> endswith b a"
proof -
  obtain p where p: "s = p @ a" using assms(1) unfolding endswith_iff ..
  obtain q where q: "s = q @ b" using assms(2) unfolding endswith_iff ..
  from p q have "p @ a = q @ b" by simp
  then obtain u where "(p = q @ u \<and> u @ a = b) \<or> (p @ u = q \<and> a = u @ b)"
    unfolding append_eq_append_conv2 by blast
  then show ?thesis unfolding endswith_iff by blast
qed

lemma disjoint_suffixes:
  assumes "endswith_any n xs"
    and "list_all (\<lambda>x. list_all (\<lambda>y. \<not> endswith x y \<and> \<not> endswith y x) ys) xs"
  shows "\<not> endswith_any n ys"
  using assms endswith_conflict
  unfolding endswith_any_def list_ex_iff list_all_iff by blast

lemma dll_family_not_earlier:
  assumes "endswith_any n [''.dll'', ''.db'', ''.dat'', ''.tmp'', ''.temp'']"
  shows "\<not> endswith_any n [''.lnk'', ''.bat'', ''.cmd'']"
    and "\<not> endswith n ''.msi''"
    and "\<not> endswith_any n [''.js'', ''.jse'', ''.vbs'', ''.vbe'', ''.wsf'']"
proof -
  show "\<not> endswith_any n [''.lnk'', ''.bat'', ''.cmd'']"
    by (rule disjoint_suffixes [OF assms]) (simp add: endswith_def)
  have "\<not> endswith_any n [''.msi'']"
    by (rule disjoint_suffixes [OF assms]) (simp add: endswith_def)
  then show "\<not> endswith n ''.msi''" by (simp add: endswith_any_def)
  show "\<not> endswith_any n [''.js'', ''.jse'', ''.vbs'', ''.vbe'', ''.wsf'']"
    by (rule disjoint_suffixes [OF assms]) (simp add: endswith_def)
qed

lemma data_family_not_dll:
  assumes "endswith_any n [''.db'', ''.dat'', ''.tmp'', ''.temp'']"
  shows "\<not> endswith n ''.dll''"
    and "endswith_any n [''.dll'', ''.db'', ''.dat'', ''.tmp'', ''.temp'']"
proof -
  have "\<not> endswith_any n [''.dll'']"
    by (rule disjoint_suffixes [OF assms]) (simp add: endswith_def)
  then show "\<not> endswith n ''.dll''" by (simp add: endswith_any_def)
  show "endswith_any n [''.dll'', ''.db'', ''.dat'', ''.tmp'', ''.temp'']"
    using assms by (simp add: endswith_any_def)
qed

lemma contains_Nil: "contains [] sub \<longleftrightarrow> sub = []"
  by (auto simp: contains_def)

lemma any_indicator_in_read_MZ:
  "any_indicator_in_read PE_INDICATORS f = contains f ''MZ''"
  by (simp add: PE_INDICATORS_def f_read_def contains_Nil)

lemma dispatch_dll_family:
  assumes "endswith_any (lower file_name) [''.dll'', ''.db'', ''.dat'', ''.tmp'', ''.temp'']"
  shows "execute_interesting_file P root file_name file_path s =
           (if \<not> endswith (lower file_name) ''.dll'' then
              (case open_rb P file_path (world s) of
                 Inl e \<Rightarrow> (Inl e, s)
               | Inr f \<Rightarrow>
                   if \<not> any_indicator_in_read PE_INDICATORS f then (Inr None, s)
                   else run_dll P file_path s)
            else run_dll P file_path s)"
  using assms dll_family_not_earlier [OF assms]
  by (simp add: execute_interesting_file_def)

lemma run_dll_register_server:
  assumes "choose_dll_export P file_path (world s) = Inr (Some ''DllRegisterServer'')"
  shows "run_dll P file_path s =
           (case get_path P ''regsvr32.exe'' (world s) of
              Inl e \<Rightarrow> (Inl e, s)
            | Inr rundll32 \<Rightarrow> (Inl (UnboundLocalError ''function''), s))"
  using assms by (simp add: run_dll_def split: sum.splits)

text \<open>
  C1: the claim asks that a library of the \<open>.dll\<close> family that passes the content check
  and exports \<open>DllRegisterServer\<close> be launched with \<open>regsvr32.exe\<close>. The code never
  launches it: either the lookup of \<open>regsvr32.exe\<close> raises, or the argument string
  reads the variable \<open>function\<close>, which this branch has not assigned, and
  \<open>UnboundLocalError\<close> is raised. In both cases nothing was done before.
\<close>

theorem register_server_raises:
  assumes "endswith_any (lower file_name) [''.dll'', ''.db'', ''.dat'', ''.tmp'', ''.temp'']"
    and "endswith (lower file_name) ''.dll''
         \<or> (\<exists>f. open_rb P file_path (world s) = Inr f \<and> any_indicator_in_read PE_INDICATORS f)"
    and "choose_dll_export P file_path (world s) = Inr (Some ''DllRegisterServer'')"
  shows "\<exists>e. execute_interesting_file P root file_name file_path s = (Inl e, s)
           \<and> (get_path P ''regsvr32.exe'' (world s) = Inl e
               \<or> (\<exists>regsvr32. get_path P ''regsvr32.exe'' (world s) = Inr regsvr32)
                  \<and> e = UnboundLocalError ''function'')"
proof -
  have "execute_interesting_file P root file_name file_path s = run_dll P file_path s"
    using assms(2) by (auto simp: dispatch_dll_family [OF assms(1)])
  then show ?thesis
    unfolding run_dll_register_server [OF assms(3)]
    by (cases "get_path P ''regsvr32.exe'' (world s)") auto
qed

theorem register_server_raises_witness:
  "execute_interesting_file (guest_package (Some ''DllRegisterServer'') Map.empty)
     ''C:/tmp'' ''a.DLL'' ''C:/tmp/a.DLL'' \<lparr>world = [], trace = []\<rparr> =
   (Inl (UnboundLocalError ''function''), \<lparr>world = [], trace = []\<rparr>)"
proof -
  let ?P = "guest_package (Some ''DllRegisterServer'') Map.empty
              :: ((string \<times> string) list, nat) package"
  let ?s = "\<lparr>world = [], trace = []\<rparr> :: (string \<times> string) list state"
  have a: "endswith_any (lower ''a.DLL'') [''.dll'', ''.db'', ''.dat'', ''.tmp'', ''.temp'']"
    by code_simp
  have b: "endswith (lower ''a.DLL'') ''.dll''" by code_simp
  have c: "choose_dll_export ?P ''C:/tmp/a.DLL'' (world ?s) = Inr (Some ''DllRegisterServer'')"
    by (simp add: guest_package_def)
  have g: "get_path ?P ''regsvr32.exe'' (world ?s) = Inr (SYSTEM32 @ [BSL] @ ''regsvr32.exe'')"
    by (simp add: guest_package_def)
  from register_server_raises [OF a disjI1 [OF b] c, of "''C:/tmp''"] g
  show ?thesis by auto
qed

text \<open>
  C7, as stated, fails: the check reads the whole file, not its first bytes. The file
  \<open>lib.dat\<close> below begins with \<open>GIF89a\<close>, its first sixty-four bytes hold neither
  indicator, and the loader is launched on it, because \<open>MZ\<close> stands further on.
\<close>

theorem signature_beyond_first_bytes_launches:
  "take 6 gif_with_mz = ''GIF89a''
   \<and> \<not> contains (take 64 gif_with_mz) ''MZ''
   \<and> \<not> contains (take 64 gif_with_mz) ''This program cannot be run in DOS mode''
   \<and> execute_interesting_file (guest_package None Map.empty) ''C:/tmp'' ''lib.dat'' ''C:/tmp/lib.dat''
        \<lparr>world = [(''C:/tmp/lib.dat'', gif_with_mz)], trace = []\<rparr> =
      (Inr (Some 4242),
       \<lparr>world = [(''C:/tmp/lib.dat'', gif_with_mz)],
        trace = [Execute (SYSTEM32 @ [BSL] @ ''rundll32.exe'')
                   (Some ([DQ] @ ''C:/tmp/lib.dat'' @ [DQ] @ '',#1'')) ''C:/tmp/lib.dat'']\<rparr>)"
  by code_simp

text \<open>
  C7, amended: for every dispatched file whose name ends, without regard to case, in
  \<open>.db\<close>, \<open>.dat\<close>, \<open>.tmp\<close> or \<open>.temp\<close> and whose bytes, all of them, contain
  neither \<open>MZ\<close> nor the text \<open>This program cannot be run in DOS mode\<close>,
  \<open>execute_interesting_file\<close> returns \<open>None\<close>, launches nothing and raises nothing:
  the state is the one it was called in.
\<close>

theorem no_signature_no_launch:
  assumes "endswith_any (lower file_name) [''.db'', ''.dat'', ''.tmp'', ''.temp'']"
    and "open_rb P file_path (world s) = Inr f"
    and "\<not> contains f ''MZ''"
    and "\<not> contains f ''This program cannot be run in DOS mode''"
  shows "execute_interesting_file P root file_name file_path s = (Inr None, s)"
  using assms(2,3) data_family_not_dll(1) [OF assms(1)]
  by (simp add: dispatch_dll_family [OF data_family_not_dll(2) [OF assms(1)]]
        any_indicator_in_read_MZ)

theorem no_signature_no_launch_witness:
  "execute_interesting_file (guest_package None Map.empty) ''C:/tmp'' ''lib.dat'' ''C:/tmp/lib.dat''
        \<lparr>world = [(''C:/tmp/lib.dat'', ''GIF89a'')], trace = []\<rparr> =
      (Inr None, \<lparr>world = [(''C:/tmp/lib.dat'', ''GIF89a'')], trace = []\<rparr>)"
proof -
  let ?P = "guest_package None Map.empty :: ((string \<times> string) list, nat) package"
  let ?s = "\<lparr>world = [(''C:/tmp/lib.dat'', ''GIF89a'')], trace = []\<rparr>"
  have a: "endswith_any (lower ''lib.dat'') [''.db'', ''.dat'', ''.tmp'', ''.temp'']"
    by code_simp
  have b: "open_rb ?P ''C:/tmp/lib.dat'' (world ?s) = Inr ''GIF89a''"
    by (simp add: guest_package_def)
  have c: "\<not> contains ''GIF89a'' ''MZ''" by code_simp
  have d: "\<not> contains ''GIF89a'' ''This program cannot be run in DOS mode''" by code_simp
  show ?thesis by (rule no_signature_no_launch [OF a b c d])
qed

section \<open>Properties: the native backend\<close>

lemma check_encrypted_eq:
  "check_encrypted zi pw = (if is_encrypted zi \<and> pw = [] then INFECTED else pw)"
  by (simp add: check_encrypted_def)

lemma password_loop_eq: "password_loop infos pw = effective_password infos pw"
proof (induction infos arbitrary: pw)
  case Nil
  then show ?case by (simp add: effective_password_def)
next
  case (Cons zi infos)
  then show ?case
    by (simp add: effective_password_def check_encrypted_eq INFECTED_def)
qed

lemma call_depths_append: "call_depths (a @ b) = call_depths a @ call_depths b"
  by (induction a rule: call_depths.induct) auto

lemma do_extractall_trace:
  "do_extractall L z ep pw s = (r, s') \<Longrightarrow> trace s' = trace s @ [ExtractAll ep pw]"
  by (auto simp: do_extractall_def split: prod.splits)

lemma try_extract_trace:
  assumes "try_extract L z ep pw s = (r, s')"
  shows "trace s' = trace s @ [ExtractAll ep pw]
         \<or> trace s' = trace s @ [ExtractAll ep pw, ExtractAll ep pw]"
proof -
  obtain r1 s1 where a: "do_extractall L z ep pw s = (r1, s1)"
    by (cases "do_extractall L z ep pw s")
  obtain r2 s2 where b: "do_extractall L z ep pw s1 = (r2, s2)"
    by (cases "do_extractall L z ep pw s1")
  from do_extractall_trace [OF a] do_extractall_trace [OF b] assms a b
  show ?thesis
    by (auto simp: try_extract_def split: option.splits if_splits)
qed

lemma extract_zip_elim:
  assumes ez: "extract_zip L zp ep pw d s = (r, s')"
  obtains (early) e pre where
      "r = Inl e"
      "trace s' = trace s @ Call_extract_zip zp d # pre"
      "(pre = [] \<and> ZipFile L zp (world s) = Inl e)
       \<or> (pre = [Move zp (zp @ ''.old'')] \<and> is_overwritten L zp (world s) = Inr True
           \<and> (move L zp (zp @ ''.old'') (world s) = (Some e, world s')
               \<or> (move L zp (zp @ ''.old'') (world s) = (None, world s')
                   \<and> ZipFile L (zp @ ''.old'') (world s') = Inl e)))"
  | (run) pre zp' sa z pending s2 fin where
      "(pre = [] \<and> zp' = zp \<and> is_overwritten L zp (world s) = Inr False \<and> world sa = world s)
       \<or> (pre = [Move zp (zp @ ''.old'')] \<and> zp' = zp @ ''.old''
           \<and> is_overwritten L zp (world s) = Inr True
           \<and> move L zp (zp @ ''.old'') (world s) = (None, world sa))"
      "trace sa = trace s @ Call_extract_zip zp d # pre"
      "ZipFile L zp' (world sa) = Inr z"
      "try_extract L z ep (effective_password (infolist L z) (to_bytes L pw)) sa = (pending, s2)"
      "(if d < 4
        then nested_loop L
               (\<lambda>name. extract_zip L (path_join (zip_paths L) ep name) ep
                          (Bytes (effective_password (infolist L z) (to_bytes L pw))) (d + 1))
               (namelist L z) s2
        else (None, s2)) = (fin, s')"
      "r = (case fin of Some e \<Rightarrow> Inl e
            | None \<Rightarrow> (case pending of Some e \<Rightarrow> Inl e | None \<Rightarrow> Inr ()))"
proof -
  define s1 where "s1 = emit (Call_extract_zip zp d) s"
  have w1: "world s1 = world s" and t1: "trace s1 = trace s @ [Call_extract_zip zp d]"
    by (simp_all add: s1_def emit_def)
  note unf = ez [unfolded extract_zip.simps [of L zp ep pw d s] Let_def, folded s1_def]
  show thesis
  proof (cases "is_overwritten L zp (world s)")
    case (Inl e)
    then have z: "ZipFile L zp (world s) = Inl e"
      by (auto simp: is_overwritten_def split: sum.splits)
    from unf Inl w1 have "r = Inl e" "s' = s1" by simp_all
    then show thesis using early [of e "[]"] t1 z by simp
  next
    case (Inr ow)
    then obtain z0 where z0: "ZipFile L zp (world s) = Inr z0"
      by (auto simp: is_overwritten_def split: sum.splits)
    have cont: thesis
      if pre: "(pre = [] \<and> zp' = zp \<and> is_overwritten L zp (world s) = Inr False \<and> world sa = world s)
         \<or> (pre = [Move zp (zp @ ''.old'')] \<and> zp' = zp @ ''.old''
             \<and> is_overwritten L zp (world s) = Inr True
             \<and> move L zp (zp @ ''.old'') (world s) = (None, world sa))"
        and tsa: "trace sa = trace s @ Call_extract_zip zp d # pre"
        and body: "(case ZipFile L zp' (world sa) of
              Inl e \<Rightarrow> (Inl e, sa)
            | Inr archive \<Rightarrow>
                (case try_extract L archive ep (password_loop (infolist L archive) (to_bytes L pw)) sa of
                   (pending, s2) \<Rightarrow>
                     (case (if d < 4
                            then nested_loop L
                                   (\<lambda>name. extract_zip L (path_join (zip_paths L) ep name) ep
                                      (Bytes (password_loop (infolist L archive) (to_bytes L pw))) (d + 1))
                                   (namelist L archive) s2
                            else (None, s2)) of
                        (Some e, s3) \<Rightarrow> (Inl e, s3)
                      | (None, s3) \<Rightarrow>
                          (case pending of Some e \<Rightarrow> (Inl e, s3) | None \<Rightarrow> (Inr (), s3))))) = (r, s')"
      for pre zp' sa
    proof (cases "ZipFile L zp' (world sa)")
      case (Inl e)
      with body have "r = Inl e" "s' = sa" by simp_all
      then show thesis using early [of e pre] tsa pre Inl by auto
    next
      case (Inr z)
      let ?pw' = "password_loop (infolist L z) (to_bytes L pw)"
      have pw'_eq: "?pw' = effective_password (infolist L z) (to_bytes L pw)"
        by (simp add: password_loop_eq)
      obtain pending s2 where te: "try_extract L z ep ?pw' sa = (pending, s2)"
        by (cases "try_extract L z ep ?pw' sa")
      obtain fin s3 where nl: "(if d < 4
            then nested_loop L
                   (\<lambda>name. extract_zip L (path_join (zip_paths L) ep name) ep (Bytes ?pw') (d + 1))
                   (namelist L z) s2
            else (None, s2)) = (fin, s3)"
        by (cases "(if d < 4
            then nested_loop L
                   (\<lambda>name. extract_zip L (path_join (zip_paths L) ep name) ep (Bytes ?pw') (d + 1))
                   (namelist L z) s2
            else (None, s2))")
      from body Inr te nl have "(case fin of
             Some e \<Rightarrow> (Inl e, s3)
           | None \<Rightarrow> (case pending of Some e \<Rightarrow> (Inl e, s3) | None \<Rightarrow> (Inr (), s3))) = (r, s')"
        by simp
      then have "s' = s3" and
        "r = (case fin of Some e \<Rightarrow> Inl e
              | None \<Rightarrow> (case pending of Some e \<Rightarrow> Inl e | None \<Rightarrow> Inr ()))"
        by (auto split: option.splits)
      then show thesis
        using run [of pre zp' sa z pending s2 fin] pre tsa Inr te nl
        unfolding pw'_eq by blast
    qed
    show thesis
    proof (cases ow)
      case False
      show thesis
      proof (rule cont [of "[]" zp s1])
        show "trace s1 = trace s @ Call_extract_zip zp d # []" using t1 by simp
      qed (use unf Inr False w1 in simp_all)
    next
      case True
      obtain mr w where mv: "move L zp (zp @ ''.old'') (world s) = (mr, w)"
        by (cases "move L zp (zp @ ''.old'') (world s)")
      show thesis
      proof (cases mr)
        case (Some e)
        from unf Inr True w1 mv Some have "r = Inl e"
          "s' = \<lparr>world = w, trace = trace s1 @ [Move zp (zp @ ''.old'')]\<rparr>" by simp_all
        then show thesis using early [of e "[Move zp (zp @ ''.old'')]"] t1 Inr True mv Some by simp
      next
        case None
        show thesis
        proof (rule cont [of "[Move zp (zp @ ''.old'')]" "zp @ ''.old''"
                "\<lparr>world = w, trace = trace s1 @ [Move zp (zp @ ''.old'')]\<rparr>"])
          show "trace \<lparr>world = w, trace = trace s1 @ [Move zp (zp @ ''.old'')]\<rparr> =
                  trace s @ Call_extract_zip zp d # [Move zp (zp @ ''.old'')]"
            using t1 by simp
        qed (use unf Inr True w1 mv None in simp_all)
      qed
    qed
  qed
qed

lemma nested_loop_invariant:
  assumes step: "\<And>name s r s'. recurse name s = (r, s') \<Longrightarrow> \<exists>new. trace s' = trace s @ new \<and> Q new"
    and nil: "Q []"
    and app: "\<And>a b. Q a \<Longrightarrow> Q b \<Longrightarrow> Q (a @ b)"
    and warn: "\<And>n. Q [Log_warning n]"
    and err: "\<And>n m. Q [Log_error n m]"
  shows "nested_loop L recurse names s = (r, s') \<Longrightarrow> \<exists>new. trace s' = trace s @ new \<and> Q new"
proof (induction names arbitrary: s)
  case Nil
  then show ?case using nil by simp
next
  case (Cons name names)
  show ?case
  proof (cases "endswith name ''.zip''")
    case False
    then show ?thesis using Cons by simp
  next
    case True
    obtain r1 s1 where rc: "recurse name s = (r1, s1)" by (cases "recurse name s")
    from step [OF rc] obtain n1 where n1: "trace s1 = trace s @ n1" "Q n1" by blast
    have logged: "\<exists>new. trace s' = trace s @ new \<and> Q new"
      if l: "Q [a]" and nl: "nested_loop L recurse names (emit a s1) = (r, s')" for a
    proof -
      from Cons.IH [OF nl] obtain n2 where n2: "trace s' = trace (emit a s1) @ n2" "Q n2"
        by blast
      have "Q (n1 @ ([a] @ n2))" using n1(2) l n2(2) app by blast
      moreover have "trace s' = trace s @ (n1 @ ([a] @ n2))"
        using n1(1) n2(1) by (simp add: emit_def)
      ultimately show ?thesis by blast
    qed
    show ?thesis
    proof (cases r1)
      case (Inr u)
      then have "nested_loop L recurse names s1 = (r, s')" using Cons.prems True rc by simp
      from Cons.IH [OF this] obtain n2 where "trace s' = trace s1 @ n2" "Q n2" by blast
      then show ?thesis using n1 app by (metis append.assoc)
    next
      case (Inl e)
      consider (bz) "is_BadZipfile e" | (rt) "\<not> is_BadZipfile e" "is_RuntimeError L e"
        | (other) "\<not> is_BadZipfile e" "\<not> is_RuntimeError L e" by blast
      then show ?thesis
      proof cases
        case bz
        then have "nested_loop L recurse names (emit (Log_warning name) s1) = (r, s')"
          using Cons.prems True rc Inl by simp
        then show ?thesis using logged warn by blast
      next
        case rt
        then have "nested_loop L recurse names (emit (Log_error name (message e)) s1) = (r, s')"
          using Cons.prems True rc Inl by simp
        then show ?thesis using logged err by blast
      next
        case other
        then have "s' = s1" using Cons.prems True rc Inl by simp
        then show ?thesis using n1 by blast
      qed
    qed
  qed
qed

lemma depths_within_simps:
  "depths_within lo []"
  "depths_within lo (a @ b) \<longleftrightarrow> depths_within lo a \<and> depths_within lo b"
  "depths_within lo (Log_warning n # rest) \<longleftrightarrow> depths_within lo rest"
  "depths_within lo (Log_error n m # rest) \<longleftrightarrow> depths_within lo rest"
  "depths_within lo (ExtractAll x y # rest) \<longleftrightarrow> depths_within lo rest"
  "depths_within lo (Move x y # rest) \<longleftrightarrow> depths_within lo rest"
  "depths_within lo (Call_extract_zip p d # rest) \<longleftrightarrow> lo \<le> d \<and> d \<le> 4 \<and> depths_within lo rest"
  by (simp_all add: depths_within_def call_depths_append)

lemma depths_within_mono: "depths_within (lo + 1) new \<Longrightarrow> depths_within lo new"
  unfolding depths_within_def list_all_iff by auto

lemma extract_zip_depths_aux:
  "nat (4 - d) = n \<Longrightarrow> d \<le> 4 \<Longrightarrow> extract_zip L zp ep pw d s = (r, s') \<Longrightarrow>
     \<exists>new. trace s' = trace s @ new \<and> depths_within d new"
proof (induction n arbitrary: d zp pw s r s')
  case (0 d)
  then have d: "\<not> d < 4" by simp
  from 0(3) show ?case
  proof (cases rule: extract_zip_elim)
    case (early e pre)
    then show ?thesis using 0(2) by (auto simp: depths_within_simps)
  next
    case (run pre zp' sa z pending s2 fin)
    from run(5) d have "s' = s2" by simp
    with try_extract_trace [OF run(4)] run(1,2) 0(2) show ?thesis
      by (auto simp: depths_within_simps)
  qed
next
  case (Suc n d)
  have rec: "\<exists>new. trace s' = trace s @ new \<and> depths_within d new"
    if "extract_zip L zp' ep pw' (d + 1) s = (r, s')" for zp' pw' s r s'
  proof -
    have "nat (4 - (d + 1)) = n" "d + 1 \<le> 4" using Suc.prems(1) by simp_all
    from Suc.IH [OF this that] show ?thesis using depths_within_mono by blast
  qed
  have loop: "\<exists>new. trace s' = trace s @ new \<and> depths_within d new"
    if "nested_loop L (\<lambda>name. extract_zip L (path_join (zip_paths L) ep name) ep pw' (d + 1))
          names s = (r, s')" for pw' names s r s'
    by (rule nested_loop_invariant [where Q = "depths_within d", OF _ _ _ _ _ that])
       (auto simp: depths_within_simps dest: rec)
  from Suc.prems(3) show ?case
  proof (cases rule: extract_zip_elim)
    case (early e pre)
    then show ?thesis using Suc.prems(2) by (auto simp: depths_within_simps)
  next
    case (run pre zp' sa z pending s2 fin)
    have "\<exists>new. trace s' = trace s2 @ new \<and> depths_within d new"
    proof (cases "d < 4")
      case True
      with run(5) show ?thesis using loop by simp
    next
      case False
      with run(5) show ?thesis by (simp add: depths_within_simps)
    qed
    then obtain n3 where n3: "trace s' = trace s2 @ n3" "depths_within d n3" by blast
    from try_extract_trace [OF run(4)] obtain n2 where
      n2: "trace s2 = trace sa @ n2" "depths_within d n2"
      by (auto simp: depths_within_simps)
    have "depths_within d (Call_extract_zip zp d # pre)"
      using run(1) Suc.prems(2) by (auto simp: depths_within_simps)
    then have "depths_within d ((Call_extract_zip zp d # pre) @ n2 @ n3)"
      using n2(2) n3(2) by (simp add: depths_within_simps)
    moreover have "trace s' = trace s @ ((Call_extract_zip zp d # pre) @ n2 @ n3)"
      using n3(1) n2(1) run(2) by simp
    ultimately show ?thesis by blast
  qed
qed

lemma extract_zip_depths:
  assumes "d \<le> 4"
  shows "list_all (\<lambda>k. d \<le> k \<and> k \<le> 4)
           (call_depths (new_actions s (snd (extract_zip L zp ep pw d s))))"
proof -
  obtain r s' where e: "extract_zip L zp ep pw d s = (r, s')"
    by (cases "extract_zip L zp ep pw d s")
  from extract_zip_depths_aux [OF refl assms e] obtain new where
    "trace s' = trace s @ new" "depths_within d new" by blast
  then show ?thesis by (simp add: e new_actions_def depths_within_def)
qed

lemma extract_zip_open_fails:
  assumes "ZipFile L zp (world s) = Inl e"
  shows "extract_zip L zp ep pw d s = (Inl e, emit (Call_extract_zip zp d) s)"
proof -
  have "is_overwritten L zp (world (emit (Call_extract_zip zp d) s)) = Inl e"
    using assms by (simp add: is_overwritten_def emit_def)
  then show ?thesis
    unfolding extract_zip.simps [of L zp ep pw d s] Let_def by simp
qed

lemma nested_loop_extends:
  assumes "\<And>name s r s'. recurse name s = (r, s') \<Longrightarrow> \<exists>new. trace s' = trace s @ new"
    and "nested_loop L recurse names s = (r, s')"
  shows "\<exists>new. trace s' = trace s @ new"
  using nested_loop_invariant [where Q = "\<lambda>new. True" and recurse = recurse, OF _ _ _ _ _ assms(2)]
    assms(1) by auto

lemma extract_zip_starts:
  assumes "extract_zip L zp ep pw d s = (r, s')"
  shows "\<exists>rest. trace s' = trace s @ Call_extract_zip zp d # rest"
proof -
  from extract_zip_depths_aux [OF refl _ assms] have
    ext: "d \<le> 4 \<Longrightarrow> \<exists>new. trace s' = trace s @ new" by blast
  from assms show ?thesis
  proof (cases rule: extract_zip_elim)
    case (early e pre)
    then show ?thesis by blast
  next
    case (run pre zp' sa z pending s2 fin)
    from try_extract_trace [OF run(4)] obtain n2 where n2: "trace s2 = trace sa @ n2" by blast
    have "\<exists>n3. trace s' = trace s2 @ n3"
    proof (cases "d < 4")
      case True
      let ?rec = "\<lambda>name. extract_zip L (path_join (zip_paths L) ep name) ep
                    (Bytes (effective_password (infolist L z) (to_bytes L pw))) (d + 1)"
      have rec: "\<exists>new. trace s' = trace s @ new" if "?rec name s = (r, s')" for name s r s'
        using extract_zip_depths_aux [OF refl _ that] True by auto
      have nl: "nested_loop L ?rec (namelist L z) s2 = (fin, s')" using run(5) True by simp
      show ?thesis
        by (rule nested_loop_extends [where recurse = ?rec, OF _ nl]) (erule rec)
    next
      case False
      with run(5) show ?thesis by simp
    qed
    then obtain n3 where "trace s' = trace s2 @ n3" by blast
    then have "trace s' = trace s @ Call_extract_zip zp d # (pre @ n2 @ n3)"
      using n2 run(2) by simp
    then show ?thesis by blast
  qed
qed

lemma nested_loop_starts:
  assumes "d < 4"
    and "nested_loop L (\<lambda>name. extract_zip L (f name) ep pw' (d + 1)) names s = (r, s')"
  shows "trace s' = trace s \<or> (\<exists>p rest. trace s' = trace s @ Call_extract_zip p (d + 1) # rest)"
  using assms(2)
proof (induction names arbitrary: s)
  case Nil
  then show ?case by simp
next
  case (Cons name names)
  let ?rec = "\<lambda>name. extract_zip L (f name) ep pw' (d + 1)"
  show ?case
  proof (cases "endswith name ''.zip''")
    case False
    then show ?thesis using Cons by simp
  next
    case True
    obtain r1 s1 where rc: "?rec name s = (r1, s1)" by (cases "?rec name s")
    from extract_zip_starts [OF rc] obtain rest1 where
      r1: "trace s1 = trace s @ Call_extract_zip (f name) (d + 1) # rest1" by blast
    have ext: "\<exists>new. trace s' = trace s @ new"
      if "?rec name s = (r, s')" for name s r s'
      using extract_zip_starts [OF that] by blast
    have "\<exists>new. trace s' = trace s1 @ new"
    proof (cases r1)
      case (Inr u)
      then have nl: "nested_loop L ?rec names s1 = (r, s')" using Cons.prems True rc by simp
      show ?thesis
        by (rule nested_loop_extends [where recurse = ?rec, OF _ nl]) (erule ext)
    next
      case (Inl e)
      consider (bz) "is_BadZipfile e" | (rt) "\<not> is_BadZipfile e" "is_RuntimeError L e"
        | (other) "\<not> is_BadZipfile e" "\<not> is_RuntimeError L e" by blast
      then show ?thesis
      proof cases
        case bz
        then have nl: "nested_loop L ?rec names (emit (Log_warning name) s1) = (r, s')"
          using Cons.prems True rc Inl by simp
        have "\<exists>new. trace s' = trace (emit (Log_warning name) s1) @ new"
          by (rule nested_loop_extends [where recurse = ?rec, OF _ nl]) (erule ext)
        then show ?thesis by (auto simp: emit_def)
      next
        case rt
        then have nl: "nested_loop L ?rec names (emit (Log_error name (message e)) s1) = (r, s')"
          using Cons.prems True rc Inl by simp
        have "\<exists>new. trace s' = trace (emit (Log_error name (message e)) s1) @ new"
          by (rule nested_loop_extends [where recurse = ?rec, OF _ nl]) (erule ext)
        then show ?thesis by (auto simp: emit_def)
      next
        case other
        then have "s' = s1" using Cons.prems True rc Inl by simp
        then show ?thesis by simp
      qed
    qed
    then show ?thesis using r1 by auto
  qed
qed

lemma extract_zip_run_trace:
  assumes ez: "extract_zip L zp ep pw d s = (r, s')"
    and sa: "trace sa = trace s @ Call_extract_zip zp d # pre"
    and te: "try_extract L z ep used sa = (pending, s2)"
    and nl: "(if d < 4
              then nested_loop L
                     (\<lambda>name. extract_zip L (path_join (zip_paths L) ep name) ep (Bytes used) (d + 1))
                     (namelist L z) s2
              else (None, s2)) = (fin, s')"
  shows "\<exists>k rest. (k = 1 \<or> k = 2)
           \<and> trace s' = trace s @ Call_extract_zip zp d # pre @ replicate k (ExtractAll ep used) @ rest
           \<and> (rest = [] \<or> (\<exists>p rest'. rest = Call_extract_zip p (d + 1) # rest'))"
proof -
  have "\<exists>rest. trace s' = trace s2 @ rest
          \<and> (rest = [] \<or> (\<exists>p rest'. rest = Call_extract_zip p (d + 1) # rest'))"
  proof (cases "d < 4")
    case True
    with nl nested_loop_starts [OF True, of L "path_join (zip_paths L) ep" ep "Bytes used"
        "namelist L z" s2 fin s']
    show ?thesis by auto
  next
    case False
    with nl show ?thesis by simp
  qed
  then obtain rest where rest: "trace s' = trace s2 @ rest"
    "rest = [] \<or> (\<exists>p rest'. rest = Call_extract_zip p (d + 1) # rest')" by blast
  from try_extract_trace [OF te] have
    "trace s2 = trace sa @ replicate 1 (ExtractAll ep used)
     \<or> trace s2 = trace sa @ replicate 2 (ExtractAll ep used)"
    by (simp add: numeral_2_eq_2)
  then obtain k :: nat where k: "k = 1 \<or> k = 2"
    "trace s2 = trace sa @ replicate k (ExtractAll ep used)" by blast
  have "trace s' = trace s @ Call_extract_zip zp d # pre @ replicate k (ExtractAll ep used) @ rest"
    using rest(1) k(2) sa by simp
  then show ?thesis using k(1) rest(2) by blast
qed

text \<open>
  C2: the claim asks that no error of the recursive extraction of a nested \<open>.zip\<close>
  member leave the parent call or stop the attempts on the members that follow. The
  handlers of the loop catch \<open>BadZipfile\<close> and \<open>RuntimeError\<close>, but the nested call
  turns the errors of its own extraction into \<open>CuckooPackageError\<close>. Here the parent
  holds \<open>a.zip\<close>, whose member is encrypted under another password, and then
  \<open>b.zip\<close>: the error of \<open>a.zip\<close> leaves the parent call, nothing is logged, and
  \<open>b.zip\<close>, although extracted as a file, is never entered.
\<close>

theorem nested_failure_aborts_parent:
  "extract_zip (memory_zip_lib False) ''p.zip'' ''out'' (Bytes ''infected'') 1
     \<lparr>world = [(''p.zip'', parent)], trace = []\<rparr> =
   (Inl (CuckooPackageError ''Unable to extract Zip file: Bad password for file''),
    \<lparr>world = [(''out'' @ [BSL] @ ''b.zip'', plain), (''out'' @ [BSL] @ ''a.zip'', locked),
              (''p.zip'', parent)],
     trace = [Call_extract_zip ''p.zip'' 1, ExtractAll ''out'' ''infected'',
              Call_extract_zip (''out'' @ [BSL] @ ''a.zip'') 2, ExtractAll ''out'' ''infected'',
              ExtractAll ''out'' ''infected'']\<rparr>)"
  by code_simp

text \<open>
  C3: the claim asks for \<open>CuckooPackageError\<close> when the archive cannot be opened by the
  overwrite guard. In \<open>is_overwritten\<close> the archive is opened outside the \<open>try\<close>
  whose handler raises \<open>CuckooPackageError\<close>, so \<open>extract_zip\<close> fails with the very
  exception of the opening, for a file that is no archive with \<open>BadZipfile\<close>, right
  after its entry and before anything else is done.
\<close>

theorem overwrite_guard_open_error:
  assumes "ZipFile L zp (world s) = Inl e"
  shows "fst (extract_zip L zp ep pw d s) = Inl e
         \<and> trace (snd (extract_zip L zp ep pw d s)) = trace s @ [Call_extract_zip zp d]"
  using extract_zip_open_fails [OF assms] by (simp add: emit_def)

theorem overwrite_guard_open_error_witness:
  "fst (extract_zip (memory_zip_lib False) ''notes.zip'' ''out'' (Bytes ''infected'') 1
          \<lparr>world = [(''notes.zip'', Data ''hello'')], trace = []\<rparr>) =
     Inl (BadZipfile ''File is not a zip file'')
   \<and> trace (snd (extract_zip (memory_zip_lib False) ''notes.zip'' ''out'' (Bytes ''infected'') 1
          \<lparr>world = [(''notes.zip'', Data ''hello'')], trace = []\<rparr>)) =
     [Call_extract_zip ''notes.zip'' 1]"
proof -
  have "ZipFile (memory_zip_lib False) ''notes.zip''
          (world \<lparr>world = [(''notes.zip'', Data ''hello'')], trace = []\<rparr>) =
        Inl (BadZipfile ''File is not a zip file'')"
    by (simp add: memory_zip_lib_def)
  from overwrite_guard_open_error [OF this] show ?thesis by simp
qed

lemma five_levels_run:
  "extract_zip (memory_zip_lib False) ''l1.zip'' ''out'' (Bytes ''infected'') 1
     \<lparr>world = [(''l1.zip'', level1)], trace = []\<rparr> =
   (Inr (),
    \<lparr>world = [(''out'' @ [BSL] @ ''l5.zip'', level5), (''out'' @ [BSL] @ ''l4.zip'', level4),
              (''out'' @ [BSL] @ ''l3.zip'', level3), (''out'' @ [BSL] @ ''l2.zip'', level2),
              (''l1.zip'', level1)],
     trace = [Call_extract_zip ''l1.zip'' 1, ExtractAll ''out'' ''infected'',
              Call_extract_zip (''out'' @ [BSL] @ ''l2.zip'') 2, ExtractAll ''out'' ''infected'',
              Call_extract_zip (''out'' @ [BSL] @ ''l3.zip'') 3, ExtractAll ''out'' ''infected'',
              Call_extract_zip (''out'' @ [BSL] @ ''l4.zip'') 4, ExtractAll ''out'' ''infected'']\<rparr>)"
  by code_simp

text \<open>
  C4: every entry into \<open>extract_zip\<close> that a call at depth 1 makes, itself included, has
  a recursion depth from 1 to 4. For the archive nested five levels deep, the call
  returns without an error; the archives of levels 1 to 4 are entered at depths 1 to 4;
  the archive of level 5 is written to the destination as a file and never entered, and
  its member is not extracted.
\<close>

theorem extract_zip_depth_bound:
  "list_all (\<lambda>k. 1 \<le> k \<and> k \<le> 4)
     (call_depths (new_actions s (snd (extract_zip L zp ep pw 1 s))))
   \<and> (case extract_zip (memory_zip_lib False) ''l1.zip'' ''out'' (Bytes ''infected'') 1
             \<lparr>world = [(''l1.zip'', level1)], trace = []\<rparr> of
         (r, s') \<Rightarrow>
           r = Inr ()
           \<and> trace s' =
               [Call_extract_zip ''l1.zip'' 1, ExtractAll ''out'' ''infected'',
                Call_extract_zip (''out'' @ [BSL] @ ''l2.zip'') 2, ExtractAll ''out'' ''infected'',
                Call_extract_zip (''out'' @ [BSL] @ ''l3.zip'') 3, ExtractAll ''out'' ''infected'',
                Call_extract_zip (''out'' @ [BSL] @ ''l4.zip'') 4, ExtractAll ''out'' ''infected'']
           \<and> map_of (world s') (''out'' @ [BSL] @ ''l5.zip'') = Some level5
           \<and> map_of (world s') (''out'' @ [BSL] @ ''payload.exe'') = None)"
proof -
  have "list_all (\<lambda>k. 1 \<le> k \<and> k \<le> 4)
          (call_depths (new_actions s (snd (extract_zip L zp ep pw 1 s))))"
    by (rule extract_zip_depths) simp
  moreover have "map_of [(''out'' @ [BSL] @ ''l5.zip'', level5), (''out'' @ [BSL] @ ''l4.zip'', level4),
              (''out'' @ [BSL] @ ''l3.zip'', level3), (''out'' @ [BSL] @ ''l2.zip'', level2),
              (''l1.zip'', level1)] (''out'' @ [BSL] @ ''payload.exe'') = None"
    by simp
  ultimately show ?thesis
    unfolding five_levels_run by simp
qed

lemma extract_zip_own_extractions:
  "(is_overwritten L zp (world s) = Inr False \<and> ZipFile L zp (world s) = Inr z \<longrightarrow>
      (\<exists>k rest. (k = 1 \<or> k = 2)
         \<and> trace (snd (extract_zip L zp ep pw d s)) =
             trace s @ Call_extract_zip zp d
               # replicate k (ExtractAll ep (effective_password (infolist L z) (to_bytes L pw)))
               @ rest
         \<and> (rest = [] \<or> (\<exists>p rest'. rest = Call_extract_zip p (d + 1) # rest'))))
   \<and> (is_overwritten L zp (world s) = Inr True
       \<and> move L zp (zp @ ''.old'') (world s) = (None, w)
       \<and> ZipFile L (zp @ ''.old'') w = Inr z \<longrightarrow>
      (\<exists>k rest. (k = 1 \<or> k = 2)
         \<and> trace (snd (extract_zip L zp ep pw d s)) =
             trace s @ Call_extract_zip zp d # Move zp (zp @ ''.old'')
               # replicate k (ExtractAll ep (effective_password (infolist L z) (to_bytes L pw)))
               @ rest
         \<and> (rest = [] \<or> (\<exists>p rest'. rest = Call_extract_zip p (d + 1) # rest'))))
   \<and> effective_password (infolist L z) (to_bytes L pw) =
       (if list_ex (\<lambda>zip_info. and (flag_bits zip_info) 1 \<noteq> 0) (infolist L z)
           \<and> to_bytes L pw = []
        then ''infected'' else to_bytes L pw)"
proof (intro conjI impI)
  obtain r s' where ez: "extract_zip L zp ep pw d s = (r, s')"
    by (cases "extract_zip L zp ep pw d s")
  {
    assume h: "is_overwritten L zp (world s) = Inr False \<and> ZipFile L zp (world s) = Inr z"
    from ez have "\<exists>k rest. (k = 1 \<or> k = 2)
         \<and> trace s' =
             trace s @ Call_extract_zip zp d
               # [] @ replicate k (ExtractAll ep (effective_password (infolist L z) (to_bytes L pw)))
               @ rest
         \<and> (rest = [] \<or> (\<exists>p rest'. rest = Call_extract_zip p (d + 1) # rest'))"
    proof (cases rule: extract_zip_elim)
      case (early e pre)
      with h show ?thesis by auto
    next
      case (run pre zp' sa z' pending s2 fin)
      from run(1) h have p: "pre = []" "zp' = zp" "world sa = world s" by auto
      with run(3) h have z: "z' = z" by simp
      show ?thesis
        using extract_zip_run_trace [OF ez run(2) run(4) run(5)] unfolding p z .
    qed
    then show "\<exists>k rest. (k = 1 \<or> k = 2)
         \<and> trace (snd (extract_zip L zp ep pw d s)) =
             trace s @ Call_extract_zip zp d
               # replicate k (ExtractAll ep (effective_password (infolist L z) (to_bytes L pw)))
               @ rest
         \<and> (rest = [] \<or> (\<exists>p rest'. rest = Call_extract_zip p (d + 1) # rest'))"
      by (simp add: ez)
  }
  {
    assume h: "is_overwritten L zp (world s) = Inr True
       \<and> move L zp (zp @ ''.old'') (world s) = (None, w)
       \<and> ZipFile L (zp @ ''.old'') w = Inr z"
    from ez have "\<exists>k rest. (k = 1 \<or> k = 2)
         \<and> trace s' =
             trace s @ Call_extract_zip zp d
               # [Move zp (zp @ ''.old'')] @ replicate k (ExtractAll ep (effective_password (infolist L z) (to_bytes L pw)))
               @ rest
         \<and> (rest = [] \<or> (\<exists>p rest'. rest = Call_extract_zip p (d + 1) # rest'))"
    proof (cases rule: extract_zip_elim)
      case (early e pre)
      with h show ?thesis by (auto simp: is_overwritten_def)
    next
      case (run pre zp' sa z' pending s2 fin)
      from run(1) h have p: "pre = [Move zp (zp @ ''.old'')]" "zp' = zp @ ''.old''" "world sa = w"
        by auto
      with run(3) h have z: "z' = z" by simp
      show ?thesis
        using extract_zip_run_trace [OF ez run(2) run(4) run(5)] unfolding p z .
    qed
    then show "\<exists>k rest. (k = 1 \<or> k = 2)
         \<and> trace (snd (extract_zip L zp ep pw d s)) =
             trace s @ Call_extract_zip zp d # Move zp (zp @ ''.old'')
               # replicate k (ExtractAll ep (effective_password (infolist L z) (to_bytes L pw)))
               @ rest
         \<and> (rest = [] \<or> (\<exists>p rest'. rest = Call_extract_zip p (d + 1) # rest'))"
      by (simp add: ez)
  }
  show "effective_password (infolist L z) (to_bytes L pw) =
       (if list_ex (\<lambda>zip_info. and (flag_bits zip_info) 1 \<noteq> 0) (infolist L z)
           \<and> to_bytes L pw = []
        then ''infected'' else to_bytes L pw)"
  proof -
    have "is_encrypted = (\<lambda>zip_info. and (flag_bits zip_info) 1 \<noteq> 0)"
      by (rule ext) (simp add: is_encrypted_def)
    then show ?thesis by (simp add: effective_password_def INFECTED_def)
  qed
qed


text \<open>
  C6: when the archive is opened for extraction, with or without the renaming of the
  overwrite guard, every \<open>extractall\<close> of the call (the attempt and, if any, the
  second attempt) is given the same password, and what follows in the trace belongs to
  the nested calls. With \<open>given\<close> the password of the caller (the bytes themselves,
  or the encoding of the text), that password is \<open>infected\<close> when some member has
  the encrypted flag set and \<open>given\<close> is empty, and it is \<open>given\<close>, unchanged, in
  every other case.
\<close>

theorem extract_zip_password:
  "(let given = (case pw of Str t \<Rightarrow> str_encode L t | Bytes b \<Rightarrow> b);
        used = (if list_ex (\<lambda>zip_info. and (flag_bits zip_info) 1 \<noteq> 0) (infolist L z)
                   \<and> given = []
                then ''infected'' else given)
    in (is_overwritten L zp (world s) = Inr False \<and> ZipFile L zp (world s) = Inr z \<longrightarrow>
          (\<exists>k rest. (k = 1 \<or> k = 2)
             \<and> trace (snd (extract_zip L zp ep pw d s)) =
                 trace s @ Call_extract_zip zp d # replicate k (ExtractAll ep used) @ rest
             \<and> (rest = [] \<or> (\<exists>p rest'. rest = Call_extract_zip p (d + 1) # rest'))))
       \<and> (is_overwritten L zp (world s) = Inr True
           \<and> move L zp (zp @ ''.old'') (world s) = (None, w)
           \<and> ZipFile L (zp @ ''.old'') w = Inr z \<longrightarrow>
          (\<exists>k rest. (k = 1 \<or> k = 2)
             \<and> trace (snd (extract_zip L zp ep pw d s)) =
                 trace s @ Call_extract_zip zp d # Move zp (zp @ ''.old'')
                   # replicate k (ExtractAll ep used) @ rest
             \<and> (rest = [] \<or> (\<exists>p rest'. rest = Call_extract_zip p (d + 1) # rest')))))"
proof -
  have given: "to_bytes L pw = (case pw of Str t \<Rightarrow> str_encode L t | Bytes b \<Rightarrow> b)"
    by (cases pw) simp_all
  have "is_encrypted = (\<lambda>zip_info. and (flag_bits zip_info) 1 \<noteq> 0)"
    by (rule ext) (simp add: is_encrypted_def)
  then have used: "effective_password (infolist L z) (to_bytes L pw) =
      (if list_ex (\<lambda>zip_info. and (flag_bits zip_info) 1 \<noteq> 0) (infolist L z)
          \<and> (case pw of Str t \<Rightarrow> str_encode L t | Bytes b \<Rightarrow> b) = []
       then ''infected'' else (case pw of Str t \<Rightarrow> str_encode L t | Bytes b \<Rightarrow> b))"
    by (simp add: effective_password_def INFECTED_def given)
  note own = extract_zip_own_extractions [of L zp s z ep pw d w, unfolded used]
  show ?thesis
    unfolding Let_def using own by blast
qed

theorem extract_zip_password_witness:
  "(\<exists>k rest. (k = 1 \<or> k = 2)
      \<and> trace (snd (extract_zip (memory_zip_lib False) ''s.zip'' ''out'' (Bytes '''') 1
                      \<lparr>world = [(''s.zip'', sealed)], trace = []\<rparr>)) =
          Call_extract_zip ''s.zip'' 1 # replicate k (ExtractAll ''out'' ''infected'') @ rest
      \<and> (rest = [] \<or> (\<exists>p rest'. rest = Call_extract_zip p 2 # rest')))
   \<and> (\<exists>k rest. (k = 1 \<or> k = 2)
      \<and> trace (snd (extract_zip (memory_zip_lib False) ''s.zip'' ''out'' (Bytes ''secret'') 1
                      \<lparr>world = [(''s.zip'', sealed)], trace = []\<rparr>)) =
          Call_extract_zip ''s.zip'' 1 # replicate k (ExtractAll ''out'' ''secret'') @ rest
      \<and> (rest = [] \<or> (\<exists>p rest'. rest = Call_extract_zip p 2 # rest')))
   \<and> (\<exists>k rest. (k = 1 \<or> k = 2)
      \<and> trace (snd (extract_zip (memory_zip_lib False) ''c.zip'' ''out'' (Str '''') 1
                      \<lparr>world = [(''c.zip'', plain)], trace = []\<rparr>)) =
          Call_extract_zip ''c.zip'' 1 # replicate k (ExtractAll ''out'' '''') @ rest
      \<and> (rest = [] \<or> (\<exists>p rest'. rest = Call_extract_zip p 2 # rest')))
   \<and> (\<exists>k rest. (k = 1 \<or> k = 2)
      \<and> trace (snd (extract_zip (memory_zip_lib False) ''s.zip'' ''out'' (Bytes '''') 1
                      \<lparr>world = [(''s.zip'', selfnamed)], trace = []\<rparr>)) =
          Call_extract_zip ''s.zip'' 1 # Move ''s.zip'' ''s.zip.old''
            # replicate k (ExtractAll ''out'' ''infected'') @ rest
      \<and> (rest = [] \<or> (\<exists>p rest'. rest = Call_extract_zip p 2 # rest')))"
proof -
  let ?L = "memory_zip_lib False"
  let ?s = "\<lparr>world = [(''s.zip'', sealed)], trace = []\<rparr>"
  let ?z = "[Member ''readme.txt'' 0 '''' (Data ''r''), Member ''sample.exe'' 1 ''infected'' (Data ''MZ'')]"
  let ?c = "\<lparr>world = [(''c.zip'', plain)], trace = []\<rparr>"
  let ?x = "[Member ''c.txt'' 0 '''' (Data ''c'')]"
  let ?t = "\<lparr>world = [(''s.zip'', selfnamed)], trace = []\<rparr>"
  let ?y = "[Member ''s.zip'' 1 ''infected'' (Data ''MZ'')]"
  have enc_z: "list_ex (\<lambda>zip_info. and (flag_bits zip_info) 1 \<noteq> 0) (infolist ?L ?z)"
    by (simp add: memory_zip_lib_def)
  have enc_x: "\<not> list_ex (\<lambda>zip_info. and (flag_bits zip_info) 1 \<noteq> 0) (infolist ?L ?x)"
    by (simp add: memory_zip_lib_def)
  have enc_y: "list_ex (\<lambda>zip_info. and (flag_bits zip_info) 1 \<noteq> 0) (infolist ?L ?y)"
    by (simp add: memory_zip_lib_def)
  have enc: "str_encode ?L '''' = ''''" by (simp add: memory_zip_lib_def)
  have a1: "is_overwritten ?L ''s.zip'' (world ?s) = Inr False" by code_simp
  have a2: "ZipFile ?L ''s.zip'' (world ?s) = Inr ?z"
    by (simp add: memory_zip_lib_def sealed_def)
  have A: "is_overwritten ?L ''s.zip'' (world ?s) = Inr False
           \<and> ZipFile ?L ''s.zip'' (world ?s) = Inr ?z"
    using a1 a2 by blast
  have c1: "is_overwritten ?L ''c.zip'' (world ?c) = Inr False" by code_simp
  have c2: "ZipFile ?L ''c.zip'' (world ?c) = Inr ?x"
    by (simp add: memory_zip_lib_def plain_def)
  have C: "is_overwritten ?L ''c.zip'' (world ?c) = Inr False
           \<and> ZipFile ?L ''c.zip'' (world ?c) = Inr ?x"
    using c1 c2 by blast
  have b1: "is_overwritten ?L ''s.zip'' (world ?t) = Inr True" by code_simp
  have b2: "move ?L ''s.zip'' (''s.zip'' @ ''.old'') (world ?t) = (None, [(''s.zip.old'', selfnamed)])"
    by (simp add: memory_zip_lib_def)
  have b3: "ZipFile ?L (''s.zip'' @ ''.old'') [(''s.zip.old'', selfnamed)] = Inr ?y"
    by (simp add: memory_zip_lib_def selfnamed_def)
  have B: "is_overwritten ?L ''s.zip'' (world ?t) = Inr True
           \<and> move ?L ''s.zip'' (''s.zip'' @ ''.old'') (world ?t) = (None, [(''s.zip.old'', selfnamed)])
           \<and> ZipFile ?L (''s.zip'' @ ''.old'') [(''s.zip.old'', selfnamed)] = Inr ?y"
    using b1 b2 b3 by blast
  note T1 = extract_zip_password [where L = ?L and zp = "''s.zip''" and s = ?s and z = ?z
      and ep = "''out''" and pw = "Bytes ''''" and d = 1, unfolded Let_def,
      THEN conjunct1, THEN mp, OF A]
  note T2 = extract_zip_password [where L = ?L and zp = "''s.zip''" and s = ?s and z = ?z
      and ep = "''out''" and pw = "Bytes ''secret''" and d = 1, unfolded Let_def,
      THEN conjunct1, THEN mp, OF A]
  note T3 = extract_zip_password [where L = ?L and zp = "''c.zip''" and s = ?c and z = ?x
      and ep = "''out''" and pw = "Str ''''" and d = 1, unfolded Let_def,
      THEN conjunct1, THEN mp, OF C]
  note T4 = extract_zip_password [where L = ?L and zp = "''s.zip''" and s = ?t and z = ?y
      and ep = "''out''" and pw = "Bytes ''''" and d = 1 and w = "[(''s.zip.old'', selfnamed)]",
      unfolded Let_def, THEN conjunct2, THEN mp, OF B]
  have "\<exists>k rest. (k = 1 \<or> k = 2)
      \<and> trace (snd (extract_zip ?L ''s.zip'' ''out'' (Bytes '''') 1 ?s)) =
          Call_extract_zip ''s.zip'' 1 # replicate k (ExtractAll ''out'' ''infected'') @ rest
      \<and> (rest = [] \<or> (\<exists>p rest'. rest = Call_extract_zip p 2 # rest'))"
    using T1 enc_z by simp
  moreover
  have "\<exists>k rest. (k = 1 \<or> k = 2)
      \<and> trace (snd (extract_zip ?L ''s.zip'' ''out'' (Bytes ''secret'') 1 ?s)) =
          Call_extract_zip ''s.zip'' 1 # replicate k (ExtractAll ''out'' ''secret'') @ rest
      \<and> (rest = [] \<or> (\<exists>p rest'. rest = Call_extract_zip p 2 # rest'))"
    using T2 by simp
  moreover
  have "\<exists>k rest. (k = 1 \<or> k = 2)
      \<and> trace (snd (extract_zip ?L ''c.zip'' ''out'' (Str '''') 1 ?c)) =
          Call_extract_zip ''c.zip'' 1 # replicate k (ExtractAll ''out'' '''') @ rest
      \<and> (rest = [] \<or> (\<exists>p rest'. rest = Call_extract_zip p 2 # rest'))"
    using T3 enc_x enc by simp
  moreover
  have "\<exists>k rest. (k = 1 \<or> k = 2)
      \<and> trace (snd (extract_zip ?L ''s.zip'' ''out'' (Bytes '''') 1 ?t)) =
          Call_extract_zip ''s.zip'' 1 # Move ''s.zip'' ''s.zip.old''
            # replicate k (ExtractAll ''out'' ''infected'') @ rest
      \<and> (rest = [] \<or> (\<exists>p rest'. rest = Call_extract_zip p 2 # rest'))"
    using T4 enc_y by simp
  ultimately show ?thesis by blast
qed

end
